theory Spec2Isabelle
  imports Complex_Main
begin

section \<open>JavaScript strings\<close>

text \<open>
  A JavaScript string is modelled as a \<^typ>\<open>string\<close>: the list of its code units, each in
  the range 0..255.  The upstream transport is modelled after \<open>TextDecoder.decode\<close>: a
  chunk is the decoded text of one \<open>reader.read()\<close>.
\<close>

definition newline :: char where
  "newline = CHR 0x0A"

text \<open>The WhiteSpace and LineTerminator code points of ECMAScript below 256:
  TAB, LF, VT, FF, CR, SP and NBSP.\<close>

definition is_space :: "char \<Rightarrow> bool" where
  "is_space c = (of_char c \<in> {9, 10, 11, 12, 13, 32, 160 :: nat})"

text \<open>\<open>s.trim()\<close>\<close>

definition trim :: "string \<Rightarrow> string" where
  "trim s = rev (dropWhile is_space (rev (dropWhile is_space s)))"

text \<open>\<open>s.startsWith(p)\<close>\<close>

definition startsWith :: "string \<Rightarrow> string \<Rightarrow> bool" where
  "startsWith s p = (take (length p) s = p)"

text \<open>\<open>s.slice(n)\<close> for a non-negative \<open>n\<close>\<close>

definition slice :: "string \<Rightarrow> nat \<Rightarrow> string" where
  "slice s n = drop n s"

text \<open>\<open>s.split(sep)\<close>: the pieces of \<open>s\<close> between the occurrences of \<open>sep\<close>, found from the
  left without overlap.  The result is never empty for a non-empty separator.\<close>

function split :: "string \<Rightarrow> string \<Rightarrow> string list" where
  "split s sep =
     (if sep = [] then map (\<lambda>c. [c]) s
      else if s = [] then [[]]
      else if take (length sep) s = sep then [] # split (drop (length sep) s) sep
      else (case split (tl s) sep of
              [] \<Rightarrow> [[hd s]]
            | p # ps \<Rightarrow> (hd s # p) # ps))"
  by pat_completeness auto
termination
  by (relation "measure (\<lambda>(s, sep). length s)") auto

declare split.simps [simp del]

section \<open>Parsed JSON values and the optional chain\<close>

text \<open>The values \<open>JSON.parse\<close> returns.  An object is the list of its own properties.\<close>

datatype json =
    JNull
  | JBool bool
  | JNum rat
  | JStr string
  | JArr "json list"
  | JObj "(string \<times> json) list"

text \<open>\<open>JSON.parse\<close> is the platform's: it is a parameter of the model.  \<open>None\<close> stands for
  the SyntaxError it throws.\<close>

type_synonym parser = "string \<Rightarrow> json option"

text \<open>\<open>v.k\<close> on a value that is neither null nor undefined, for a key \<open>k\<close> that no
  prototype defines (\<open>choices\<close>, \<open>delta\<close>, \<open>content\<close>); \<open>None\<close> is \<open>undefined\<close>.\<close>

fun get_prop :: "string \<Rightarrow> json \<Rightarrow> json option" where
  "get_prop k (JObj kvs) = map_of kvs k"
| "get_prop k v = None"

text \<open>\<open>v[0]\<close> on a value that is neither null nor undefined.\<close>

fun get_index0 :: "json \<Rightarrow> json option" where
  "get_index0 (JArr []) = None"
| "get_index0 (JArr (x # xs)) = Some x"
| "get_index0 (JStr []) = None"
| "get_index0 (JStr (c # cs)) = Some (JStr [c])"
| "get_index0 (JObj kvs) = map_of kvs ''0''"
| "get_index0 v = None"

text \<open>\<open>a?.b\<close>: \<open>undefined\<close> when \<open>a\<close> is null or undefined, the access otherwise.\<close>

fun opt_chain :: "json option \<Rightarrow> (json \<Rightarrow> json option) \<Rightarrow> json option" where
  "opt_chain None f = None"
| "opt_chain (Some JNull) f = None"
| "opt_chain (Some v) f = f v"

text \<open>\<open>json?.choices?.[0]?.delta?.content\<close>\<close>

definition delta_content :: "json \<Rightarrow> json option" where
  "delta_content j =
     opt_chain (opt_chain (opt_chain (opt_chain (Some j) (get_prop ''choices''))
       get_index0) (get_prop ''delta'')) (get_prop ''content'')"

text \<open>The truthiness \<open>if (delta)\<close> tests, for a value that is not \<open>undefined\<close>.\<close>

fun truthy :: "json \<Rightarrow> bool" where
  "truthy JNull = False"
| "truthy (JBool b) = b"
| "truthy (JNum r) = (r \<noteq> 0)"
| "truthy (JStr s) = (s \<noteq> [])"
| "truthy (JArr xs) = True"
| "truthy (JObj kvs) = True"

section \<open>Events of the wire protocol\<close>

datatype role = User | Assistant

text \<open>\<open>ServerMsg\<close> of the relay: \<open>message_added\<close> (role, id, text, ts), \<open>assistant_delta\<close>
  (id, text), \<open>assistant_done\<close> (id) and \<open>error\<close> (message).  The text of a delta is the value
  read from the upstream payload, whatever JSON value it is.\<close>

datatype ServerMsg =
    MessageAdded role string string nat
  | AssistantDelta string json
  | AssistantDone string
  | Error string

text \<open>\<open>ClientMsg\<close>: \<open>join\<close> (roomId, displayName) and \<open>user_message\<close> (id, text).\<close>

datatype ClientMsg =
    Join string "string option"
  | UserMessage string string

text \<open>A thrown value, with its \<open>message\<close> when it has one.\<close>

datatype exn = Exn "string option"

text \<open>What \<open>JSON.parse(raw)\<close> gives in \<open>onMessage\<close>: a SyntaxError, \<open>null\<close> (reading
  \<open>msg.type\<close> throws the given TypeError), a client message, or a value of neither type.\<close>

datatype inbound =
    Invalid
  | Nullish exn
  | Msg ClientMsg
  | Other

section \<open>The room\<close>

text \<open>A server-side WebSocket: \<open>fault\<close> is the error its \<open>send\<close> throws now (if any),
  \<open>outbox\<close> what it has sent, \<open>joined\<close> whether it is in the room's \<open>sockets\<close> set.\<close>

record socket =
  sid :: nat
  fault :: "exn option"
  outbox :: "ServerMsg list"
  joined :: bool

text \<open>\<open>ws.send(payload)\<close>\<close>

definition send :: "socket \<Rightarrow> ServerMsg \<Rightarrow> exn + socket" where
  "send ws payload =
     (case fault ws of
        Some e \<Rightarrow> Inl e
      | None \<Rightarrow> Inr (ws\<lparr>outbox := outbox ws @ [payload]\<rparr>))"

text \<open>An \<open>onMessage\<close> call suspended in \<open>streamAssistantReply\<close>, with its \<open>assistantId\<close>: at
  \<open>await fetch(...)\<close>, at \<open>await resp.text()\<close> (with the status), or at
  \<open>await reader.read()\<close> (with the buffer).\<close>

datatype task =
    AwaitFetch string
  | AwaitText string nat
  | AwaitRead string string

text \<open>What the room does to the outside, in order: a call of \<open>broadcast\<close>, a request to
  the completion API (with the user's text), a write of \<open>this.generating\<close>, and an
  \<open>onMessage\<close> promise that rejects.\<close>

datatype effect =
    Broadcast ServerMsg
  | Fetch string
  | SetGenerating bool
  | Rejected exn

text \<open>The room: every socket it has accepted (in the order of \<open>sockets.add\<close>), the
  \<open>generating\<close> flag, the suspended \<open>onMessage\<close> calls, and the effects so far.\<close>

record room =
  conns :: "socket list"
  generating :: bool
  tasks :: "task list"
  effects :: "effect list"

text \<open>A new \<open>RoomDurableObject\<close>.\<close>

definition new_room :: room where
  "new_room = \<lparr>conns = [], generating = False, tasks = [], effects = []\<rparr>"

text \<open>The loop of \<open>broadcast\<close> over \<open>this.sockets\<close>: a send that throws is caught and
  ignored, and the loop goes on.\<close>

fun broadcast_loop :: "ServerMsg \<Rightarrow> socket list \<Rightarrow> socket list" where
  "broadcast_loop payload [] = []"
| "broadcast_loop payload (ws # rest) =
     (if joined ws then
        (case send ws payload of
           Inl e \<Rightarrow> ws # broadcast_loop payload rest
         | Inr ws' \<Rightarrow> ws' # broadcast_loop payload rest)
      else ws # broadcast_loop payload rest)"

definition broadcast :: "ServerMsg \<Rightarrow> room \<Rightarrow> room" where
  "broadcast m r =
     r\<lparr>conns := broadcast_loop m (conns r), effects := effects r @ [Broadcast m]\<rparr>"

text \<open>\<open>this.generating = b\<close>\<close>

definition set_generating :: "bool \<Rightarrow> room \<Rightarrow> room" where
  "set_generating b r = r\<lparr>generating := b, effects := effects r @ [SetGenerating b]\<rparr>"

section \<open>The upstream stream reader\<close>

text \<open>The inner loop of \<open>streamAssistantReply\<close> over the lines of one block.  The result
  is \<open>True\<close> when the sentinel made the function \<open>return\<close>.  A payload that does not parse
  is caught and ignored.\<close>

fun lines_loop :: "parser \<Rightarrow> string \<Rightarrow> string list \<Rightarrow> room \<Rightarrow> bool \<times> room" where
  "lines_loop parse aid [] r = (False, r)"
| "lines_loop parse aid (line # rest) r =
     (if \<not> startsWith line ''data:'' then lines_loop parse aid rest r
      else let data = trim (slice line 5) in
        if data = [] then lines_loop parse aid rest r
        else if data = ''[DONE]'' then (True, r)
        else (case parse data of
                None \<Rightarrow> lines_loop parse aid rest r
              | Some j \<Rightarrow>
                  (case delta_content j of
                     None \<Rightarrow> lines_loop parse aid rest r
                   | Some delta \<Rightarrow>
                       if truthy delta
                       then lines_loop parse aid rest (broadcast (AssistantDelta aid delta) r)
                       else lines_loop parse aid rest r)))"

text \<open>The loop over the complete blocks of the buffer.\<close>

fun parts_loop :: "parser \<Rightarrow> string \<Rightarrow> string list \<Rightarrow> room \<Rightarrow> bool \<times> room" where
  "parts_loop parse aid [] r = (False, r)"
| "parts_loop parse aid (part # rest) r =
     (case lines_loop parse aid (split part [newline]) r of
        (True, r') \<Rightarrow> (True, r')
      | (False, r') \<Rightarrow> parts_loop parse aid rest r')"

text \<open>One turn of the \<open>while\<close> loop after a read that gave a chunk: the chunk is added to
  the buffer, the buffer is split at blank lines, the last piece is kept as the new
  buffer (\<open>parts.pop() ?? ""\<close>) and the others are processed.\<close>

definition on_chunk :: "parser \<Rightarrow> string \<Rightarrow> string \<Rightarrow> string \<Rightarrow> room \<Rightarrow> bool \<times> string \<times> room" where
  "on_chunk parse aid buffer chunk r =
     (let parts = split (buffer @ chunk) [newline, newline];
          buffer' = (if parts = [] then [] else last parts);
          (returned, r') = parts_loop parse aid (butlast parts) r
      in (returned, buffer', r'))"

text \<open>The decimal digits of a number, as a template literal prints a status.\<close>

fun digits :: "nat \<Rightarrow> string" where
  "digits n =
     (if n < 10 then [''0123456789'' ! n]
      else digits (n div 10) @ [''0123456789'' ! (n mod 10)])"

declare digits.simps [simp del]

text \<open>The response of \<open>fetch\<close>: \<open>resp.ok\<close>, \<open>resp.status\<close>, and whether \<open>resp.body\<close> is there.\<close>

record response =
  ok :: bool
  status :: nat
  has_body :: bool

text \<open>What settles an awaited promise: \<open>fetch\<close> (rejected, or a response), \<open>resp.text()\<close>
  (rejected, or the text) and \<open>reader.read()\<close> (rejected, a chunk, or \<open>None\<close> for
  \<open>done\<close>).\<close>

datatype upstream =
    FetchSettled "exn + response"
  | TextSettled "exn + string"
  | ReadSettled "exn + string option"

text \<open>The call of \<open>streamAssistantReply\<close> up to its first \<open>await\<close>: the request is sent.\<close>

definition stream_start :: "string \<Rightarrow> string \<Rightarrow> room \<Rightarrow> task \<times> room" where
  "stream_start aid userText r = (AwaitFetch aid, r\<lparr>effects := effects r @ [Fetch userText]\<rparr>)"

text \<open>\<open>streamAssistantReply\<close> resumed at its \<open>await\<close> by the settled promise, up to the next
  \<open>await\<close>: it throws (\<open>Inl\<close>), returns (\<open>None\<close>) or is suspended again.  A promise other than
  the awaited one does not resume it.\<close>

fun stream_resume :: "parser \<Rightarrow> task \<Rightarrow> upstream \<Rightarrow> room \<Rightarrow> exn + (task option \<times> room)" where
  "stream_resume parse (AwaitFetch aid) (FetchSettled (Inl e)) r = Inl e"
| "stream_resume parse (AwaitFetch aid) (FetchSettled (Inr resp)) r =
     (if \<not> ok resp \<or> \<not> has_body resp then Inr (Some (AwaitText aid (status resp)), r)
      else Inr (Some (AwaitRead aid []), r))"
| "stream_resume parse (AwaitText aid st) (TextSettled res) r =
     (let txt = (case res of Inl e \<Rightarrow> [] | Inr t \<Rightarrow> t)
      in Inl (Exn (Some (''OpenAI error '' @ digits st @ '': '' @ txt))))"
| "stream_resume parse (AwaitRead aid buffer) (ReadSettled (Inl e)) r = Inl e"
| "stream_resume parse (AwaitRead aid buffer) (ReadSettled (Inr None)) r = Inr (None, r)"
| "stream_resume parse (AwaitRead aid buffer) (ReadSettled (Inr (Some chunk))) r =
     (case on_chunk parse aid buffer chunk r of
        (True, buffer', r') \<Rightarrow> Inr (None, r')
      | (False, buffer', r') \<Rightarrow> Inr (Some (AwaitRead aid buffer'), r'))"
| "stream_resume parse t u r = Inr (Some t, r)"

section \<open>The message handler\<close>

text \<open>\<open>e?.message ?? "Assistant error"\<close>\<close>

fun error_message :: "exn \<Rightarrow> string" where
  "error_message (Exn (Some m)) = m"
| "error_message (Exn None) = ''Assistant error''"

fun assistant_id :: "task \<Rightarrow> string" where
  "assistant_id (AwaitFetch aid) = aid"
| "assistant_id (AwaitText aid st) = aid"
| "assistant_id (AwaitRead aid buffer) = aid"

text \<open>The suspended call number \<open>i\<close> is over.\<close>

definition drop_task :: "nat \<Rightarrow> room \<Rightarrow> room" where
  "drop_task i r = r\<lparr>tasks := take i (tasks r) @ drop (Suc i) (tasks r)\<rparr>"

text \<open>The \<open>try\<close>/\<open>catch\<close>/\<open>finally\<close> of \<open>onMessage\<close> around the suspended call number \<open>i\<close>,
  applied to what \<open>streamAssistantReply\<close> did when resumed in room \<open>r\<close>: still suspended,
  returned (\<open>assistant_done\<close> is broadcast) or thrown (the error is broadcast); in the
  last two cases the flag is cleared and the call is over.\<close>

fun settle :: "nat \<Rightarrow> string \<Rightarrow> room \<Rightarrow> exn + (task option \<times> room) \<Rightarrow> room" where
  "settle i aid r (Inr (Some t, r')) = r'\<lparr>tasks := (tasks r')[i := t]\<rparr>"
| "settle i aid r (Inr (None, r')) =
     drop_task i (set_generating False (broadcast (AssistantDone aid) r'))"
| "settle i aid r (Inl e) =
     drop_task i (set_generating False (broadcast (Error (error_message e)) r))"

text \<open>The reply to the sender alone: \<open>ws.send\<close> outside any \<open>try\<close>, on the socket with the
  sender's number; what it throws is thrown by \<open>onMessage\<close>.\<close>

fun reply_loop :: "nat \<Rightarrow> ServerMsg \<Rightarrow> socket list \<Rightarrow> exn + socket list" where
  "reply_loop s m [] = Inr []"
| "reply_loop s m (ws # rest) =
     (if sid ws = s then
        (case send ws m of Inl e \<Rightarrow> Inl e | Inr ws' \<Rightarrow> Inr (ws' # rest))
      else (case reply_loop s m rest of Inl e \<Rightarrow> Inl e | Inr rest' \<Rightarrow> Inr (ws # rest')))"

text \<open>\<open>onMessage(ws, raw)\<close> up to its first \<open>await\<close>.  \<open>sender\<close> is the socket the message
  came on, \<open>now1\<close> and \<open>now2\<close> are the two readings of \<open>Date.now()\<close>, \<open>uuid\<close> is
  \<open>crypto.randomUUID()\<close>.\<close>

fun onMessage :: "nat \<Rightarrow> inbound \<Rightarrow> nat \<Rightarrow> nat \<Rightarrow> string \<Rightarrow> room \<Rightarrow> room" where
  "onMessage sender Invalid now1 now2 uuid r =
     (case reply_loop sender (Error ''Invalid JSON'') (conns r) of
        Inl e \<Rightarrow> r\<lparr>effects := effects r @ [Rejected e]\<rparr>
      | Inr cs \<Rightarrow> r\<lparr>conns := cs\<rparr>)"
| "onMessage sender (Nullish e) now1 now2 uuid r = r\<lparr>effects := effects r @ [Rejected e]\<rparr>"
| "onMessage sender (Msg (Join roomId displayName)) now1 now2 uuid r = r"
| "onMessage sender (Msg (UserMessage uid utext)) now1 now2 uuid r =
     (let r1 = broadcast (MessageAdded User uid utext now1) r in
      if generating r1
      then broadcast (Error ''Assistant is busy; try again in a moment.'') r1
      else
        let r2 = set_generating True r1;
            assistantId = ''a_'' @ uuid;
            r3 = broadcast (MessageAdded Assistant assistantId [] now2) r2;
            (t, r4) = stream_start assistantId utext r3
        in r4\<lparr>tasks := tasks r4 @ [t]\<rparr>)"
| "onMessage sender Other now1 now2 uuid r = r"

section \<open>The room as a state machine\<close>

text \<open>What happens to a room: a WebSocket is accepted (\<open>fetch\<close>), a socket's \<open>close\<close>
  listener runs, a socket starts to throw on \<open>send\<close>, a message arrives on a socket, or
  the promise awaited by suspended call number \<open>i\<close> settles.\<close>

datatype event =
    Connect nat
  | Close nat
  | Break nat exn
  | Receive nat inbound nat nat string
  | Resume nat upstream

definition accept :: "nat \<Rightarrow> room \<Rightarrow> room" where
  "accept s r =
     (if s \<in> sid ` set (conns r) then r
      else r\<lparr>conns := conns r @ [\<lparr>sid = s, fault = None, outbox = [], joined = True\<rparr>]\<rparr>)"

definition on_close :: "nat \<Rightarrow> room \<Rightarrow> room" where
  "on_close s r =
     r\<lparr>conns := map (\<lambda>ws. if sid ws = s then ws\<lparr>joined := False\<rparr> else ws) (conns r)\<rparr>"

definition on_break :: "nat \<Rightarrow> exn \<Rightarrow> room \<Rightarrow> room" where
  "on_break s e r =
     r\<lparr>conns := map (\<lambda>ws. if sid ws = s then ws\<lparr>fault := Some e\<rparr> else ws) (conns r)\<rparr>"

fun room_step :: "parser \<Rightarrow> room \<Rightarrow> event \<Rightarrow> room" where
  "room_step parse r (Connect s) = accept s r"
| "room_step parse r (Close s) = on_close s r"
| "room_step parse r (Break s e) = on_break s e r"
| "room_step parse r (Receive s m now1 now2 uuid) = onMessage s m now1 now2 uuid r"
| "room_step parse r (Resume i u) =
     (if i < length (tasks r)
      then settle i (assistant_id (tasks r ! i)) r (stream_resume parse (tasks r ! i) u r)
      else r)"

text \<open>A room after a sequence of events.\<close>

definition run :: "parser \<Rightarrow> room \<Rightarrow> event list \<Rightarrow> room" where
  "run parse r evs = foldl (room_step parse) r evs"

section \<open>The client's conversation\<close>

text \<open>\<open>ChatMessage\<close>: id, role, content, timestamp.\<close>

record ChatMessage =
  mid :: string
  mrole :: role
  content :: string
  timestamp :: nat

text \<open>\<open>ServerMsg\<close> as the client's hook declares it, and \<open>Unrecognized\<close> for a parsed
  payload of any other type.\<close>

datatype ClientServerMsg =
    CMessageAdded role string string nat
  | CAssistantDelta string string
  | CAssistantDone string
  | CError string
  | Unrecognized

text \<open>\<open>xs.findIndex(p)\<close>; \<open>None\<close> is \<open>-1\<close>.\<close>

fun findIndex :: "('a \<Rightarrow> bool) \<Rightarrow> 'a list \<Rightarrow> nat option" where
  "findIndex p [] = None"
| "findIndex p (x # xs) =
     (if p x then Some 0 else (case findIndex p xs of None \<Rightarrow> None | Some k \<Rightarrow> Some (Suc k)))"

text \<open>\<open>handleServerMessage\<close>, as the function from the previous conversation to the next
  one that it passes to \<open>setConversation\<close>; \<open>now\<close> is \<open>Date.now()\<close>.  An \<open>error\<close> message
  only calls \<open>onError\<close>.\<close>

fun handleServerMessage :: "nat \<Rightarrow> ClientServerMsg \<Rightarrow> ChatMessage list \<Rightarrow> ChatMessage list" where
  "handleServerMessage now (CMessageAdded rl i txt ts) prev =
     (let payload = \<lparr>mid = i, mrole = rl, content = txt, timestamp = ts\<rparr> in
      case findIndex (\<lambda>entry. mid entry = i) prev of
        Some existingIndex \<Rightarrow> prev[existingIndex := payload]
      | None \<Rightarrow> prev @ [payload])"
| "handleServerMessage now (CAssistantDelta i txt) prev =
     (case findIndex (\<lambda>entry. mid entry = i) prev of
        None \<Rightarrow> prev @ [\<lparr>mid = i, mrole = Assistant, content = txt, timestamp = now\<rparr>]
      | Some idx \<Rightarrow> prev[idx := (prev ! idx)\<lparr>content := content (prev ! idx) @ txt\<rparr>])"
| "handleServerMessage now (CAssistantDone i) prev = prev"
| "handleServerMessage now (CError m) prev = prev"
| "handleServerMessage now Unrecognized prev = prev"

section \<open>Notions used to state the properties\<close>

text \<open>Broadcasting a list of events in order.\<close>

definition broadcast_all :: "ServerMsg list \<Rightarrow> room \<Rightarrow> room" where
  "broadcast_all ms r = foldl (\<lambda>r m. broadcast m r) r ms"

text \<open>A line whose payload is the termination sentinel.\<close>

definition is_sentinel :: "string \<Rightarrow> bool" where
  "is_sentinel l = (startsWith l ''data:'' \<and> trim (slice l 5) = ''[DONE]'')"

text \<open>A line that does not carry the payload prefix, and a line whose payload is
  malformed JSON.\<close>

definition unprefixed :: "string \<Rightarrow> bool" where
  "unprefixed l = (\<not> startsWith l ''data:'')"

definition malformed :: "parser \<Rightarrow> string \<Rightarrow> bool" where
  "malformed parse l =
     (startsWith l ''data:'' \<and> trim (slice l 5) \<noteq> [] \<and> trim (slice l 5) \<noteq> ''[DONE]''
      \<and> parse (trim (slice l 5)) = None)"

text \<open>The fragment a line other than the sentinel yields, if any.\<close>

definition line_delta :: "parser \<Rightarrow> string \<Rightarrow> json option" where
  "line_delta parse l =
     (if \<not> startsWith l ''data:'' \<or> trim (slice l 5) = [] then None
      else case parse (trim (slice l 5)) of
             None \<Rightarrow> None
           | Some j \<Rightarrow>
               (case delta_content j of
                  None \<Rightarrow> None
                | Some d \<Rightarrow> if truthy d then Some d else None))"

text \<open>The fragments of a list of lines, up to the first sentinel line.\<close>

definition fragments :: "parser \<Rightarrow> string list \<Rightarrow> json list" where
  "fragments parse ls = List.map_filter (line_delta parse) (takeWhile (\<lambda>l. \<not> is_sentinel l) ls)"

text \<open>The lines of the complete blocks of a text: the blocks that end in a blank line.\<close>

definition lines_of :: "string \<Rightarrow> string list" where
  "lines_of s = concat (map (\<lambda>part. split part [newline]) (butlast (split s [newline, newline])))"

text \<open>The events of an upstream stream delivered to suspended call number \<open>i\<close>: a
  successful response with a body, and the reads of the chunks.\<close>

definition ok_response :: response where
  "ok_response = \<lparr>ok = True, status = 200, has_body = True\<rparr>"

definition reads :: "nat \<Rightarrow> string list \<Rightarrow> event list" where
  "reads i cs = map (\<lambda>c. Resume i (ReadSettled (Inr (Some c)))) cs"

definition end_of_data :: "nat \<Rightarrow> event" where
  "end_of_data i = Resume i (ReadSettled (Inr None))"

text \<open>The events of one generation in an idle room: the user message arrives on socket
  \<open>s\<close>, the completion API answers with a successful response, and the chunks \<open>cs\<close> are
  read.\<close>

definition session :: "nat \<Rightarrow> string \<Rightarrow> string \<Rightarrow> nat \<Rightarrow> nat \<Rightarrow> string \<Rightarrow> string list \<Rightarrow> event list" where
  "session s uid utext now1 now2 uuid cs =
     [Receive s (Msg (UserMessage uid utext)) now1 now2 uuid,
      Resume 0 (FetchSettled (Inr ok_response))] @ reads 0 cs"

text \<open>The values written to the flag, in order, among the effects.\<close>

fun flag_writes :: "effect list \<Rightarrow> bool list" where
  "flag_writes [] = []"
| "flag_writes (SetGenerating b # es) = b # flag_writes es"
| "flag_writes (e # es) = flag_writes es"

text \<open>Identifier continuity: every \<open>assistant_delta\<close> and \<open>assistant_done\<close> among the effects
  carries the identifier of the last \<open>message_added\<close> with role assistant broadcast before
  it (\<open>cur\<close> is that identifier at the start of the list).\<close>

fun latest_assistant :: "string option \<Rightarrow> effect list \<Rightarrow> string option" where
  "latest_assistant cur [] = cur"
| "latest_assistant cur (Broadcast (MessageAdded Assistant i txt ts) # es) = latest_assistant (Some i) es"
| "latest_assistant cur (e # es) = latest_assistant cur es"

fun continuity :: "string option \<Rightarrow> effect list \<Rightarrow> bool" where
  "continuity cur [] = True"
| "continuity cur (Broadcast (MessageAdded Assistant i txt ts) # es) = continuity (Some i) es"
| "continuity cur (Broadcast (AssistantDelta i d) # es) = (cur = Some i \<and> continuity cur es)"
| "continuity cur (Broadcast (AssistantDone i) # es) = (cur = Some i \<and> continuity cur es)"
| "continuity cur (e # es) = continuity cur es"

text \<open>The generation in slot \<open>i\<close> of room \<open>r\<close> is over in room \<open>r'\<close>: since \<open>r\<close> the events
  \<open>ds\<close> and then the terminal event \<open>fin\<close> were broadcast, the flag was cleared once, as the
  last effect, and the suspended call is gone.\<close>

definition exited :: "nat \<Rightarrow> ServerMsg list \<Rightarrow> ServerMsg \<Rightarrow> room \<Rightarrow> room \<Rightarrow> bool" where
  "exited i ds fin r r' \<longleftrightarrow>
     effects r' = effects r @ map Broadcast ds @ [Broadcast fin, SetGenerating False] \<and>
     \<not> generating r' \<and>
     tasks r' = take i (tasks r) @ drop (Suc i) (tasks r)"

text \<open>The busy error.\<close>

definition busy_error :: ServerMsg where
  "busy_error = Error ''Assistant is busy; try again in a moment.''"

text \<open>The rest \<open>p\<close> of a line after \<open>data:\<close> carries the text fragment \<open>f\<close>: it is on one line,
  it is not the sentinel, and it parses to a value whose \<open>choices[0].delta.content\<close> is the
  string \<open>f\<close>.\<close>

definition carries :: "parser \<Rightarrow> string \<Rightarrow> string \<Rightarrow> bool" where
  "carries parse p f \<longleftrightarrow>
     newline \<notin> set p \<and> trim p \<noteq> [] \<and> trim p \<noteq> ''[DONE]'' \<and>
     (\<exists>j. parse (trim p) = Some j \<and> delta_content j = Some (JStr f))"

text \<open>The text of a stream that delivers the given payloads, one block of one line each,
  every block ended by a blank line.\<close>

definition sse_stream :: "(string \<times> string) list \<Rightarrow> string" where
  "sse_stream pfs = concat (map (\<lambda>(p, f). ''data:'' @ p @ [newline, newline]) pfs)"

text \<open>The content a line carries, if any: \<open>None\<close> for a line without the prefix, with an
  empty payload, with a payload that does not parse, or whose parsed value has no
  \<open>choices[0].delta.content\<close>.  The contents of the lines are the fragments of a stream.\<close>

definition line_content :: "parser \<Rightarrow> string \<Rightarrow> json option" where
  "line_content parse l =
     (if \<not> startsWith l ''data:'' \<or> trim (slice l 5) = [] then None
      else case parse (trim (slice l 5)) of
             None \<Rightarrow> None
           | Some j \<Rightarrow> delta_content j)"

section \<open>Concrete rooms, conversations and streams\<close>

text \<open>The payload of a completion chunk whose delta has the given content, its parsed
  value, and a parser that knows the payloads of three chunks.\<close>

definition chunk_json :: "string \<Rightarrow> json" where
  "chunk_json f = JObj [(''choices'', JArr [JObj [(''delta'', JObj [(''content'', JStr f)])]])]"

definition demo_parse :: parser where
  \<open>demo_parse = map_of
     [(''{"choices":[{"delta":{"content":"Pre"}}]}'', chunk_json ''Pre''),
      (''{"choices":[{"delta":{"content":"heat "}}]}'', chunk_json ''heat ''),
      (''{"choices":[{"delta":{"content":"oven."}}]}'', chunk_json ''oven.'')]\<close>

text \<open>A room of three sockets, the second of which throws on \<open>send\<close>.\<close>

definition demo_room :: room where
  "demo_room =
     \<lparr>conns = [\<lparr>sid = 1, fault = None, outbox = [], joined = True\<rparr>,
               \<lparr>sid = 2, fault = Some (Exn None), outbox = [], joined = True\<rparr>,
               \<lparr>sid = 3, fault = None, outbox = [], joined = True\<rparr>],
      generating = False, tasks = [], effects = []\<rparr>"

text \<open>A conversation of two messages.\<close>

definition demo_conversation :: "ChatMessage list" where
  "demo_conversation =
     [\<lparr>mid = ''u1'', mrole = User, content = ''hi'', timestamp = 1\<rparr>,
      \<lparr>mid = ''a_X'', mrole = Assistant, content = ''Pre'', timestamp = 2\<rparr>]"

text \<open>A socket connects and sends a user message.\<close>

definition demo_start :: "event list" where
  "demo_start = [Connect 1, Receive 1 (Msg (UserMessage ''u1'' ''hi'')) 5 6 ''X'']"

text \<open>A user message whose request got a successful response: the generation is reading.\<close>

definition demo_reading :: "event list" where
  "demo_reading = demo_start @ [Resume 0 (FetchSettled (Inr ok_response))]"

text \<open>A response that is not successful.\<close>

definition unavailable :: response where
  "unavailable = \<lparr>ok = False, status = 503, has_body = True\<rparr>"

text \<open>The stream of the fragments \<open>Pre\<close>, \<open>heat \<close>, \<open>oven.\<close> and the sentinel, cut into three
  chunks inside a line and inside a blank line.\<close>

definition demo_chunks :: "string list" where
  \<open>demo_chunks =
     [''data: {"choices":[{"delta":{"content":"Pre"}}]}\<newline>\<newline>data: {"choi'',
      ''ces":[{"delta":{"content":"heat "}}]}\<newline>'',
      ''\<newline>data: {"choices":[{"delta":{"content":"oven."}}]}\<newline>\<newline>data: [DONE]\<newline>\<newline>'']\<close>

text \<open>A stream with a line of another field and a garbled payload before a fragment.\<close>

definition noisy_chunks :: "string list" where
  \<open>noisy_chunks =
     [''event: message\<newline>data: {"choices":[{"del'',
      ''\<newline>data: {"choices":[{"delta":{"content":"Pre"}}]}\<newline>\<newline>'']\<close>

text \<open>A stream whose sentinel is followed by a complete block and by the start of another
  one, and the chunk that would complete it.\<close>

definition early_done_chunks :: "string list" where
  \<open>early_done_chunks =
     [''data: {"choices":[{"delta":{"content":"Pre"}}]}\<newline>\<newline>data: [DO'',
      ''NE]\<newline>\<newline>data: {"choices":[{"delta":{"content":"heat "}}]}\<newline>\<newline>data: {"choices":[{"delta":{"con'']\<close>

definition late_chunks :: "string list" where
  \<open>late_chunks = [''tent":"oven."}}]}\<newline>\<newline>'']\<close>

text \<open>A socket connects and a whole generation follows, with the stream of the three
  fragments; and the same generation after the first chunk is read.\<close>

definition demo_generation :: "event list" where
  "demo_generation = Connect 1 # session 1 ''u1'' ''hi'' 5 6 ''X'' demo_chunks @ [end_of_data 0]"

definition demo_mid :: "event list" where
  "demo_mid = demo_reading @ reads 0 (take 1 demo_chunks)"

text \<open>A completion stream as the API sends it: a first chunk with the role and an empty
  content, the chunks of \<open>Pre\<close>, \<open>heat \<close> and \<open>oven.\<close> (the last two in one block of two
  lines), a comment line, a last chunk with an empty delta, and the sentinel; cut into
  three chunks inside a line and inside a blank line.  And a parser that knows these
  payloads.\<close>

definition completion_parse :: parser where
  \<open>completion_parse = map_of
     [(''{"choices":[{"delta":{"role":"assistant","content":""}}]}'',
         JObj [(''choices'', JArr [JObj [(''delta'',
           JObj [(''role'', JStr ''assistant''), (''content'', JStr [])])]])]),
      (''{"choices":[{"delta":{"content":"Pre"}}]}'', chunk_json ''Pre''),
      (''{"choices":[{"delta":{"content":"heat "}}]}'', chunk_json ''heat ''),
      (''{"choices":[{"delta":{"content":"oven."}}]}'', chunk_json ''oven.''),
      (''{"choices":[{"delta":{},"finish_reason":"stop"}]}'',
         JObj [(''choices'', JArr [JObj [(''delta'', JObj []),
           (''finish_reason'', JStr ''stop'')]])])]\<close>

definition completion_chunks :: "string list" where
  \<open>completion_chunks =
     [''data: {"choices":[{"delta":{"role":"assistant","content":""}}]}\<newline>\<newline>data: {"choices":[{"delta":{"content":"Pre"}}]}\<newline>\<newline>data: {"choi'',
      ''ces":[{"delta":{"content":"heat "}}]}\<newline>data: {"choices":[{"delta":{"content":"oven."}}]}\<newline>'',
      ''\<newline>: keep-alive\<newline>\<newline>data: {"choices":[{"delta":{},"finish_reason":"stop"}]}\<newline>\<newline>data: [DONE]\<newline>\<newline>'']\<close>

section \<open>Frame lemmas\<close>

lemma broadcast_loop_map:
  "broadcast_loop m cs =
     map (\<lambda>ws. if joined ws \<and> fault ws = None then ws\<lparr>outbox := outbox ws @ [m]\<rparr> else ws) cs"
  by (induction cs) (auto simp: send_def split: option.splits)

lemma broadcast_frame [simp]:
  "generating (broadcast m r) = generating r"
  "tasks (broadcast m r) = tasks r"
  "effects (broadcast m r) = effects r @ [Broadcast m]"
  by (simp_all add: broadcast_def)

lemma set_generating_frame [simp]:
  "generating (set_generating b r) = b"
  "tasks (set_generating b r) = tasks r"
  "conns (set_generating b r) = conns r"
  "effects (set_generating b r) = effects r @ [SetGenerating b]"
  by (simp_all add: set_generating_def)

section \<open>Broadcast is best effort\<close>

text \<open>
  C9.  A broadcast keeps every socket of the room in its place.  Every registered socket
  whose \<open>send\<close> does not throw gets the event appended to what it has sent, whatever the
  other sockets do; a socket whose \<open>send\<close> throws, or that has left the set, is left as
  it was.  The call itself always returns: the flag and the suspended calls are
  untouched and the only effect added is the broadcast.
\<close>

theorem broadcast_best_effort:
  "length (conns (broadcast m r)) = length (conns r) \<and>
   (\<forall>k < length (conns r).
      (joined (conns r ! k) \<and> fault (conns r ! k) = None \<longrightarrow>
         conns (broadcast m r) ! k = (conns r ! k)\<lparr>outbox := outbox (conns r ! k) @ [m]\<rparr>) \<and>
      (\<not> (joined (conns r ! k) \<and> fault (conns r ! k) = None) \<longrightarrow>
         conns (broadcast m r) ! k = conns r ! k)) \<and>
   generating (broadcast m r) = generating r \<and>
   tasks (broadcast m r) = tasks r \<and>
   effects (broadcast m r) = effects r @ [Broadcast m]"
  by (simp add: broadcast_def broadcast_loop_map)

text \<open>In a room of three sockets whose second socket throws, the first and the third
  still get the event.\<close>

theorem broadcast_best_effort_witness:
  "outbox (conns (broadcast (Error ''x'') demo_room) ! 0) = [Error ''x''] \<and>
   outbox (conns (broadcast (Error ''x'') demo_room) ! 1) = [] \<and>
   outbox (conns (broadcast (Error ''x'') demo_room) ! 2) = [Error ''x''] \<and>
   length (conns (broadcast (Error ''x'') demo_room)) = 3 \<and>
   effects (broadcast (Error ''x'') demo_room) = [Broadcast (Error ''x'')]"
proof -
  note t = broadcast_best_effort [of "Error ''x''" demo_room]
  have per: "k < 3 \<Longrightarrow>
      (joined (conns demo_room ! k) \<and> fault (conns demo_room ! k) = None \<longrightarrow>
         conns (broadcast (Error ''x'') demo_room) ! k =
           (conns demo_room ! k)\<lparr>outbox := outbox (conns demo_room ! k) @ [Error ''x'']\<rparr>) \<and>
      (\<not> (joined (conns demo_room ! k) \<and> fault (conns demo_room ! k) = None) \<longrightarrow>
         conns (broadcast (Error ''x'') demo_room) ! k = conns demo_room ! k)" for k
    using t by (simp add: demo_room_def)
  have "outbox (conns (broadcast (Error ''x'') demo_room) ! 0) = [Error ''x'']"
    using per [of 0] by (simp add: demo_room_def)
  moreover have "outbox (conns (broadcast (Error ''x'') demo_room) ! 1) = []"
    using per [of 1] by (simp add: demo_room_def)
  moreover have "outbox (conns (broadcast (Error ''x'') demo_room) ! 2) = [Error ''x'']"
    using per [of 2] by (simp add: demo_room_def)
  moreover have "length (conns (broadcast (Error ''x'') demo_room)) = 3"
    using t by (simp add: demo_room_def)
  moreover have "effects (broadcast (Error ''x'') demo_room) = [Broadcast (Error ''x'')]"
    using t by (simp add: demo_room_def)
  ultimately show ?thesis by simp
qed

section \<open>The client's conversation handler\<close>

lemma findIndex_None: "findIndex p xs = None \<longleftrightarrow> (\<forall>x \<in> set xs. \<not> p x)"
  by (induction xs) (auto split: option.splits)

lemma findIndex_Some:
  "findIndex p xs = Some k \<Longrightarrow> k < length xs \<and> p (xs ! k) \<and> (\<forall>j < k. \<not> p (xs ! j))"
proof (induction xs arbitrary: k)
  case Nil
  then show ?case by simp
next
  case (Cons x xs)
  show ?case
  proof (cases "p x")
    case True
    with Cons.prems show ?thesis by simp
  next
    case False
    with Cons.prems obtain k' where k': "findIndex p xs = Some k'" "k = Suc k'"
      by (auto split: option.splits)
    from Cons.IH [OF k'(1)] False k'(2) show ?thesis
      by (auto simp: nth_Cons split: nat.splits)
  qed
qed

lemma findIndex_present:
  "\<exists>x \<in> set xs. p x \<Longrightarrow> \<exists>k. findIndex p xs = Some k"
  using findIndex_None [of p xs] by (cases "findIndex p xs") auto

text \<open>
  C10.  When the identifier of the event is already in the conversation, the first entry
  with that identifier (at position \<open>k\<close>) is the one changed, in place: a
  \<open>message_added\<close> replaces it, an \<open>assistant_delta\<close> appends its text to the entry's
  content; the conversation keeps its length.  When the identifier is absent, an
  \<open>assistant_delta\<close> appends a new assistant message whose content is the fragment.
  \<open>assistant_done\<close> and events of an unrecognized type leave the conversation unchanged.
\<close>

theorem handleServerMessage_conversation:
  "(i \<in> mid ` set prev \<longrightarrow>
      (\<exists>k < length prev. mid (prev ! k) = i \<and> (\<forall>j < k. mid (prev ! j) \<noteq> i) \<and>
         handleServerMessage now (CMessageAdded rl i txt ts) prev =
           prev[k := \<lparr>mid = i, mrole = rl, content = txt, timestamp = ts\<rparr>] \<and>
         handleServerMessage now (CAssistantDelta i txt) prev =
           prev[k := (prev ! k)\<lparr>content := content (prev ! k) @ txt\<rparr>])) \<and>
   (i \<notin> mid ` set prev \<longrightarrow>
      handleServerMessage now (CAssistantDelta i txt) prev =
        prev @ [\<lparr>mid = i, mrole = Assistant, content = txt, timestamp = now\<rparr>]) \<and>
   handleServerMessage now (CAssistantDone i) prev = prev \<and>
   handleServerMessage now Unrecognized prev = prev"
proof -
  have present: "\<exists>k < length prev. mid (prev ! k) = i \<and> (\<forall>j < k. mid (prev ! j) \<noteq> i) \<and>
         handleServerMessage now (CMessageAdded rl i txt ts) prev =
           prev[k := \<lparr>mid = i, mrole = rl, content = txt, timestamp = ts\<rparr>] \<and>
         handleServerMessage now (CAssistantDelta i txt) prev =
           prev[k := (prev ! k)\<lparr>content := content (prev ! k) @ txt\<rparr>]"
    if "i \<in> mid ` set prev"
  proof -
    from that have "\<exists>x \<in> set prev. mid x = i" by auto
    then obtain k where k: "findIndex (\<lambda>entry. mid entry = i) prev = Some k"
      using findIndex_present [of prev "\<lambda>entry. mid entry = i"] by blast
    from findIndex_Some [OF k] k show ?thesis
      by (intro exI [of _ k]) simp
  qed
  have absent: "handleServerMessage now (CAssistantDelta i txt) prev =
        prev @ [\<lparr>mid = i, mrole = Assistant, content = txt, timestamp = now\<rparr>]"
    if "i \<notin> mid ` set prev"
  proof -
    from that have "findIndex (\<lambda>entry. mid entry = i) prev = None"
      by (auto simp: findIndex_None)
    then show ?thesis by simp
  qed
  from present absent show ?thesis by simp
qed

text \<open>On a conversation of two messages.\<close>

theorem handleServerMessage_conversation_witness:
  "handleServerMessage 9 (CMessageAdded User ''a_X'' ''Mix'' 5) demo_conversation =
     [\<lparr>mid = ''u1'', mrole = User, content = ''hi'', timestamp = 1\<rparr>,
      \<lparr>mid = ''a_X'', mrole = User, content = ''Mix'', timestamp = 5\<rparr>] \<and>
   handleServerMessage 9 (CAssistantDelta ''a_X'' ''Mix'') demo_conversation =
     [\<lparr>mid = ''u1'', mrole = User, content = ''hi'', timestamp = 1\<rparr>,
      \<lparr>mid = ''a_X'', mrole = Assistant, content = ''PreMix'', timestamp = 2\<rparr>] \<and>
   handleServerMessage 9 (CAssistantDelta ''a_Y'' ''Mix'') demo_conversation =
     demo_conversation @ [\<lparr>mid = ''a_Y'', mrole = Assistant, content = ''Mix'', timestamp = 9\<rparr>] \<and>
   handleServerMessage 9 (CAssistantDone ''a_X'') demo_conversation = demo_conversation"
proof -
  have a: "handleServerMessage 9 (CAssistantDelta ''a_Y'' ''Mix'') demo_conversation =
     demo_conversation @ [\<lparr>mid = ''a_Y'', mrole = Assistant, content = ''Mix'', timestamp = 9\<rparr>]"
    using handleServerMessage_conversation [of "''a_Y''" demo_conversation 9 User "''Mix''" 5]
    by (simp add: demo_conversation_def)
  have mem: "''a_X'' \<in> mid ` set demo_conversation"
    by (simp add: demo_conversation_def)
  note t = handleServerMessage_conversation [of "''a_X''" demo_conversation 9 User "''Mix''" 5]
  from t mem obtain k where k: "k < length demo_conversation" "mid (demo_conversation ! k) = ''a_X''"
    and m: "handleServerMessage 9 (CMessageAdded User ''a_X'' ''Mix'' 5) demo_conversation =
           demo_conversation[k := \<lparr>mid = ''a_X'', mrole = User, content = ''Mix'', timestamp = 5\<rparr>]"
    and d: "handleServerMessage 9 (CAssistantDelta ''a_X'' ''Mix'') demo_conversation =
           demo_conversation[k := (demo_conversation ! k)\<lparr>content := content (demo_conversation ! k) @ ''Mix''\<rparr>]"
    by blast
  from k have "k = 1"
    by (cases k) (simp_all add: demo_conversation_def)
  with m d have
    "handleServerMessage 9 (CMessageAdded User ''a_X'' ''Mix'' 5) demo_conversation =
       [\<lparr>mid = ''u1'', mrole = User, content = ''hi'', timestamp = 1\<rparr>,
        \<lparr>mid = ''a_X'', mrole = User, content = ''Mix'', timestamp = 5\<rparr>]"
    "handleServerMessage 9 (CAssistantDelta ''a_X'' ''Mix'') demo_conversation =
       [\<lparr>mid = ''u1'', mrole = User, content = ''hi'', timestamp = 1\<rparr>,
        \<lparr>mid = ''a_X'', mrole = Assistant, content = ''PreMix'', timestamp = 2\<rparr>]"
    by (simp_all add: demo_conversation_def)
  moreover have "handleServerMessage 9 (CAssistantDone ''a_X'') demo_conversation = demo_conversation"
    using t by simp
  ultimately show ?thesis using a by simp
qed

section \<open>A user message\<close>

lemma onMessage_user_effects:
  "effects (onMessage s (Msg (UserMessage uid utext)) now1 now2 uuid r) =
     effects r @ Broadcast (MessageAdded User uid utext now1) #
       (if generating r then [Broadcast (Error ''Assistant is busy; try again in a moment.'')]
        else [SetGenerating True, Broadcast (MessageAdded Assistant (''a_'' @ uuid) [] now2),
              Fetch utext])"
  by (simp add: Let_def stream_start_def)

lemma onMessage_user_tasks:
  "tasks (onMessage s (Msg (UserMessage uid utext)) now1 now2 uuid r) =
     (if generating r then tasks r else tasks r @ [AwaitFetch (''a_'' @ uuid)])"
  by (simp add: Let_def stream_start_def)

lemma onMessage_user_generating:
  "generating (onMessage s (Msg (UserMessage uid utext)) now1 now2 uuid r)"
  by (simp add: Let_def stream_start_def)

lemma onMessage_user_conns:
  "conns (onMessage s (Msg (UserMessage uid utext)) now1 now2 uuid r) =
     broadcast_loop
       (if generating r then Error ''Assistant is busy; try again in a moment.''
        else MessageAdded Assistant (''a_'' @ uuid) [] now2)
       (broadcast_loop (MessageAdded User uid utext now1) (conns r))"
  by (simp add: Let_def stream_start_def broadcast_def set_generating_def)

text \<open>
  C4.  For every \<open>user_message\<close>, whatever the state of the room, the first thing
  \<open>onMessage\<close> does is to broadcast \<open>message_added\<close> with role user, the client's
  identifier, the text and the reading of \<open>Date.now()\<close>; only then does the flag decide
  between the busy error and the start of a generation.  Every registered socket that
  can send gets the user message before what follows.
\<close>

theorem user_message_broadcast_first:
  "effects (onMessage s (Msg (UserMessage uid utext)) now1 now2 uuid r) =
     effects r @ Broadcast (MessageAdded User uid utext now1) #
       (if generating r then [Broadcast (Error ''Assistant is busy; try again in a moment.'')]
        else [SetGenerating True, Broadcast (MessageAdded Assistant (''a_'' @ uuid) [] now2),
              Fetch utext]) \<and>
   conns (onMessage s (Msg (UserMessage uid utext)) now1 now2 uuid r) =
     broadcast_loop
       (if generating r then Error ''Assistant is busy; try again in a moment.''
        else MessageAdded Assistant (''a_'' @ uuid) [] now2)
       (broadcast_loop (MessageAdded User uid utext now1) (conns r))"
  by (simp only: onMessage_user_effects onMessage_user_conns)

text \<open>In a busy room of three sockets, the user message is sent before the busy error.\<close>

theorem user_message_broadcast_first_witness:
  "effects (onMessage 1 (Msg (UserMessage ''u2'' ''salt?'')) 7 8 ''Y''
      (demo_room\<lparr>generating := True\<rparr>)) =
     [Broadcast (MessageAdded User ''u2'' ''salt?'' 7),
      Broadcast (Error ''Assistant is busy; try again in a moment.'')] \<and>
   map outbox (conns (onMessage 1 (Msg (UserMessage ''u2'' ''salt?'')) 7 8 ''Y''
      (demo_room\<lparr>generating := True\<rparr>))) =
     [[MessageAdded User ''u2'' ''salt?'' 7, Error ''Assistant is busy; try again in a moment.''],
      [],
      [MessageAdded User ''u2'' ''salt?'' 7, Error ''Assistant is busy; try again in a moment.'']]"
  using user_message_broadcast_first [of 1 "''u2''" "''salt?''" 7 8 "''Y''" "demo_room\<lparr>generating := True\<rparr>"]
  by (simp add: demo_room_def send_def)

text \<open>
  C5, as the claim states it, fails: \<open>onMessage\<close> never looks at the text.  A message
  of two spaces, empty after trimming, in an idle room starts a generation and no error
  is broadcast.
\<close>

theorem empty_text_starts_generation:
  "trim ''  '' = [] \<and>
   effects (onMessage 1 (Msg (UserMessage ''u1'' ''  '')) 5 6 ''X'' demo_room) =
     [Broadcast (MessageAdded User ''u1'' ''  '' 5), SetGenerating True,
      Broadcast (MessageAdded Assistant ''a_X'' [] 6), Fetch ''  ''] \<and>
   tasks (onMessage 1 (Msg (UserMessage ''u1'' ''  '')) 5 6 ''X'' demo_room) = [AwaitFetch ''a_X''] \<and>
   generating (onMessage 1 (Msg (UserMessage ''u1'' ''  '')) 5 6 ''X'' demo_room)"
  by (simp add: trim_def is_space_def demo_room_def Let_def stream_start_def)

text \<open>
  C5, amended.  A \<open>user_message\<close> whose text is empty after trimming is handled as any
  other: in an idle room the user message is broadcast and a generation is started with
  that text, with no error event; an error event (busy) is broadcast, and no generation
  started, only when a generation is already in progress.
\<close>

theorem empty_text_like_any_other:
  assumes "trim utext = []"
  shows "(\<not> generating r \<longrightarrow>
            effects (onMessage s (Msg (UserMessage uid utext)) now1 now2 uuid r) =
              effects r @ [Broadcast (MessageAdded User uid utext now1), SetGenerating True,
                           Broadcast (MessageAdded Assistant (''a_'' @ uuid) [] now2), Fetch utext] \<and>
            tasks (onMessage s (Msg (UserMessage uid utext)) now1 now2 uuid r) =
              tasks r @ [AwaitFetch (''a_'' @ uuid)] \<and>
            generating (onMessage s (Msg (UserMessage uid utext)) now1 now2 uuid r)) \<and>
         (generating r \<longrightarrow>
            effects (onMessage s (Msg (UserMessage uid utext)) now1 now2 uuid r) =
              effects r @ [Broadcast (MessageAdded User uid utext now1),
                           Broadcast (Error ''Assistant is busy; try again in a moment.'')] \<and>
            tasks (onMessage s (Msg (UserMessage uid utext)) now1 now2 uuid r) = tasks r \<and>
            generating (onMessage s (Msg (UserMessage uid utext)) now1 now2 uuid r))"
  by (simp add: onMessage_user_effects onMessage_user_tasks onMessage_user_generating
        del: onMessage.simps)

text \<open>On a message of two spaces, in an idle and in a busy room.\<close>

theorem empty_text_like_any_other_witness:
  "trim ''  '' = [] \<and>
   effects (onMessage 1 (Msg (UserMessage ''u1'' ''  '')) 5 6 ''X'' new_room) =
     [Broadcast (MessageAdded User ''u1'' ''  '' 5), SetGenerating True,
      Broadcast (MessageAdded Assistant ''a_X'' [] 6), Fetch ''  ''] \<and>
   effects (onMessage 1 (Msg (UserMessage ''u1'' ''  '')) 5 6 ''X'' (new_room\<lparr>generating := True\<rparr>)) =
     [Broadcast (MessageAdded User ''u1'' ''  '' 5),
      Broadcast (Error ''Assistant is busy; try again in a moment.'')]"
proof -
  have h: "trim ''  '' = []" by (simp add: trim_def is_space_def)
  show ?thesis
    using h empty_text_like_any_other [OF h, of new_room 1 "''u1''" 5 6 "''X''"]
      empty_text_like_any_other [OF h, of "new_room\<lparr>generating := True\<rparr>" 1 "''u1''" 5 6 "''X''"]
    by (simp add: new_room_def del: onMessage.simps)
qed

section \<open>The stream reader, characterised\<close>

lemma broadcast_all_simps [simp]:
  "broadcast_all [] r = r"
  "broadcast_all (m # ms) r = broadcast_all ms (broadcast m r)"
  "broadcast_all (ms @ ms') r = broadcast_all ms' (broadcast_all ms r)"
  by (simp_all add: broadcast_all_def)

lemma broadcast_all_frame [simp]:
  "generating (broadcast_all ms r) = generating r"
  "tasks (broadcast_all ms r) = tasks r"
  "effects (broadcast_all ms r) = effects r @ map Broadcast ms"
  by (induction ms arbitrary: r) simp_all

lemma fragments_Nil [simp]: "fragments parse [] = []"
  by (simp add: fragments_def List.map_filter_simps)

lemma fragments_Cons:
  "fragments parse (l # ls) =
     (if is_sentinel l then []
      else case line_delta parse l of None \<Rightarrow> fragments parse ls | Some d \<Rightarrow> d # fragments parse ls)"
  by (simp add: fragments_def List.map_filter_simps split: option.splits)

lemma fragments_append:
  "fragments parse (xs @ ys) =
     (if \<exists>l \<in> set xs. is_sentinel l then fragments parse xs
      else fragments parse xs @ fragments parse ys)"
  by (induction xs) (auto simp: fragments_Cons split: option.splits)

lemma lines_loop_eq:
  "lines_loop parse aid ls r =
     ((\<exists>l \<in> set ls. is_sentinel l),
      broadcast_all (map (AssistantDelta aid) (fragments parse ls)) r)"
proof (induction ls arbitrary: r)
  case Nil
  then show ?case by simp
next
  case (Cons l ls)
  show ?case
  proof (cases "startsWith l ''data:''")
    case False
    then show ?thesis
      by (simp add: Cons.IH fragments_Cons is_sentinel_def line_delta_def)
  next
    case pre: True
    show ?thesis
    proof (cases "trim (slice l 5) = []")
      case True
      with pre show ?thesis
        by (simp add: Cons.IH fragments_Cons is_sentinel_def line_delta_def)
    next
      case ne: False
      show ?thesis
      proof (cases "trim (slice l 5) = ''[DONE]''")
        case True
        with pre ne show ?thesis
          by (simp add: fragments_Cons is_sentinel_def)
      next
        case False
        with pre ne show ?thesis
          by (simp add: Cons.IH fragments_Cons is_sentinel_def line_delta_def Let_def
              split: option.splits)
      qed
    qed
  qed
qed

lemma parts_loop_eq:
  "parts_loop parse aid ps r =
     lines_loop parse aid (concat (map (\<lambda>part. split part [newline]) ps)) r"
proof (induction ps arbitrary: r)
  case Nil
  then show ?case by simp
next
  case (Cons p ps)
  show ?case
    by (auto simp add: Cons.IH lines_loop_eq fragments_append simp del: lines_loop.simps)
qed

lemma split_nonempty: "sep \<noteq> [] \<Longrightarrow> split s sep \<noteq> []"
  by (subst split.simps) (auto split: list.splits)

lemma on_chunk_eq:
  "on_chunk parse aid buf c r =
     ((\<exists>l \<in> set (lines_of (buf @ c)). is_sentinel l),
      last (split (buf @ c) [newline, newline]),
      broadcast_all (map (AssistantDelta aid) (fragments parse (lines_of (buf @ c)))) r)"
  by (simp add: on_chunk_def Let_def parts_loop_eq lines_loop_eq lines_of_def split_nonempty
      del: lines_loop.simps)

section \<open>Steps of the room\<close>

lemma run_simps [simp]:
  "run parse r [] = r"
  "run parse r (e # evs) = run parse (room_step parse r e) evs"
  "run parse r (evs @ evs') = run parse (run parse r evs) evs'"
  by (simp_all add: run_def)

lemma drop_task_frame [simp]:
  "generating (drop_task i r) = generating r"
  "effects (drop_task i r) = effects r"
  "conns (drop_task i r) = conns r"
  "tasks (drop_task i r) = take i (tasks r) @ drop (Suc i) (tasks r)"
  by (simp_all add: drop_task_def)

lemma broadcast_all_Nil_ex: "\<exists>ds. r = broadcast_all (map (AssistantDelta aid) ds) r"
  by (rule exI [of _ "[]"]) simp

lemma stream_resume_chunk:
  "stream_resume parse (AwaitRead aid buf) (ReadSettled (Inr (Some c))) r =
     (if \<exists>l \<in> set (lines_of (buf @ c)). is_sentinel l
      then Inr (None, broadcast_all (map (AssistantDelta aid) (fragments parse (lines_of (buf @ c)))) r)
      else Inr (Some (AwaitRead aid (last (split (buf @ c) [newline, newline]))),
                broadcast_all (map (AssistantDelta aid) (fragments parse (lines_of (buf @ c)))) r))"
  by (simp add: on_chunk_eq)

lemma stream_resume_Inr:
  assumes "stream_resume parse t u r = Inr (ot, r')"
  shows "\<exists>ds. r' = broadcast_all (map (AssistantDelta (assistant_id t)) ds) r \<and>
              (case ot of None \<Rightarrow> True | Some t' \<Rightarrow> assistant_id t' = assistant_id t)"
  using assms
proof (induction parse t u r rule: stream_resume.induct)
  case (6 parse aid buffer chunk r)
  then show ?case
    by (auto simp: stream_resume_chunk simp del: stream_resume.simps split: if_splits)
qed (auto split: if_splits simp: broadcast_all_Nil_ex)

text \<open>What a resumed call does to the room: either it is suspended again, having
  broadcast deltas only, or it is over, having broadcast deltas, then one terminal
  event, then cleared the flag.\<close>

lemma resume_summary:
  assumes "i < length (tasks r)" and "aid = assistant_id (tasks r ! i)"
    and "r' = room_step parse r (Resume i u)"
  shows "\<exists>ds.
     (\<exists>t'. assistant_id t' = aid \<and> tasks r' = (tasks r)[i := t'] \<and>
            generating r' = generating r \<and>
            effects r' = effects r @ map Broadcast (map (AssistantDelta aid) ds)) \<or>
     (\<exists>fin. (fin = AssistantDone aid \<or> (\<exists>m. fin = Error m)) \<and>
            tasks r' = take i (tasks r) @ drop (Suc i) (tasks r) \<and>
            \<not> generating r' \<and>
            effects r' = effects r @ map Broadcast (map (AssistantDelta aid) ds) @
              [Broadcast fin, SetGenerating False])"
proof (cases "stream_resume parse (tasks r ! i) u r")
  case (Inl e)
  then have "r' = drop_task i (set_generating False (broadcast (Error (error_message e)) r))"
    using assms by simp
  then show ?thesis
    by (intro exI [of _ "[]"] disjI2 exI [of _ "Error (error_message e)"]) simp
next
  case (Inr p)
  obtain ot r1 where p: "p = (ot, r1)" by (cases p)
  from stream_resume_Inr [OF Inr [unfolded p]] assms(2) obtain ds where
    r1: "r1 = broadcast_all (map (AssistantDelta aid) ds) r"
    and ot: "case ot of None \<Rightarrow> True | Some t' \<Rightarrow> assistant_id t' = aid"
    by auto
  show ?thesis
  proof (cases ot)
    case None
    then have "r' = drop_task i (set_generating False (broadcast (AssistantDone aid) r1))"
      using assms Inr p by simp
    then show ?thesis using r1
      by (intro exI [of _ ds] disjI2 exI [of _ "AssistantDone aid"]) simp
  next
    case (Some t')
    then have "r' = r1\<lparr>tasks := (tasks r1)[i := t']\<rparr>"
      using assms Inr p by simp
    then show ?thesis using r1 ot Some
      by (intro exI [of _ ds] disjI1 exI [of _ t']) simp
  qed
qed

section \<open>The invariant of the room\<close>

lemma flag_writes_append [simp]:
  "flag_writes (es @ es') = flag_writes es @ flag_writes es'"
  by (induction es rule: flag_writes.induct) simp_all

lemma flag_writes_broadcasts [simp]:
  "flag_writes (map Broadcast ms) = []"
  "flag_writes (map (Broadcast \<circ> f) xs) = []"
  by (induction ms, simp_all) (induction xs, simp_all)

lemma latest_assistant_append [simp]:
  "latest_assistant cur (es @ es') = latest_assistant (latest_assistant cur es) es'"
  by (induction cur es rule: latest_assistant.induct) simp_all

lemma continuity_append [simp]:
  "continuity cur (es @ es') \<longleftrightarrow> continuity cur es \<and> continuity (latest_assistant cur es) es'"
  by (induction cur es rule: continuity.induct) auto

lemma latest_assistant_deltas [simp]:
  "latest_assistant cur (map (Broadcast \<circ> AssistantDelta aid) ds) = cur"
  by (induction ds) simp_all

lemma continuity_deltas [simp]:
  "continuity (Some aid) (map (Broadcast \<circ> AssistantDelta aid) ds)"
  by (induction ds) simp_all

text \<open>A message other than a user message touches neither the flag nor the suspended
  calls, and adds at most a rejection to the effects.\<close>

lemma onMessage_other:
  assumes "\<And>uid utext. m \<noteq> Msg (UserMessage uid utext)"
  shows "tasks (onMessage s m now1 now2 uuid r) = tasks r \<and>
         generating (onMessage s m now1 now2 uuid r) = generating r \<and>
         (effects (onMessage s m now1 now2 uuid r) = effects r \<or>
          (\<exists>e. effects (onMessage s m now1 now2 uuid r) = effects r @ [Rejected e]))"
proof (cases m)
  case Invalid
  then show ?thesis by (auto split: sum.splits)
next
  case (Nullish e)
  then show ?thesis by simp
next
  case (Msg cm)
  with assms show ?thesis by (cases cm) auto
next
  case Other
  then show ?thesis by simp
qed

lemma socket_events_frame [simp]:
  "tasks (accept s r) = tasks r" "generating (accept s r) = generating r"
  "effects (accept s r) = effects r"
  "tasks (on_close s r) = tasks r" "generating (on_close s r) = generating r"
  "effects (on_close s r) = effects r"
  "tasks (on_break s e r) = tasks r" "generating (on_break s e r) = generating r"
  "effects (on_break s e r) = effects r"
  by (simp_all add: accept_def on_close_def on_break_def)

text \<open>The invariant of a room: at most one suspended call, the flag is set exactly when
  there is one, every write of \<open>True\<close> is matched by one write of \<open>False\<close> or by the
  suspended call, and the identifiers are continuous, the suspended call's identifier
  being the last one introduced.\<close>

lemma step_invariant:
  fixes parse :: parser and ev :: event
  assumes "length (tasks r) \<le> 1" and "generating r \<longleftrightarrow> tasks r \<noteq> []"
    and "length (filter (\<lambda>b. b) (flag_writes (effects r))) =
         length (filter Not (flag_writes (effects r))) + length (tasks r)"
    and "continuity None (effects r)"
    and "\<forall>t \<in> set (tasks r). latest_assistant None (effects r) = Some (assistant_id t)"
  defines "r' \<equiv> room_step parse r ev"
  shows "length (tasks r') \<le> 1 \<and> (generating r' \<longleftrightarrow> tasks r' \<noteq> []) \<and>
         length (filter (\<lambda>b. b) (flag_writes (effects r'))) =
           length (filter Not (flag_writes (effects r'))) + length (tasks r') \<and>
         continuity None (effects r') \<and>
         (\<forall>t \<in> set (tasks r'). latest_assistant None (effects r') = Some (assistant_id t))"
proof (cases ev)
  case (Connect s)
  with assms show ?thesis by simp
next
  case (Close s)
  with assms show ?thesis by simp
next
  case (Break s e)
  with assms show ?thesis by simp
next
  case (Receive s m now1 now2 uuid)
  show ?thesis
  proof (cases "\<exists>uid utext. m = Msg (UserMessage uid utext)")
    case True
    then obtain uid utext where m: "m = Msg (UserMessage uid utext)" by blast
    have r': "r' = onMessage s (Msg (UserMessage uid utext)) now1 now2 uuid r"
      using Receive m by (simp add: r'_def)
    show ?thesis
    proof (cases "generating r")
      case True
      with assms(1-5) show ?thesis
        unfolding r'
        by (simp add: onMessage_user_effects onMessage_user_tasks onMessage_user_generating
            del: onMessage.simps)
    next
      case False
      with assms(2) have "tasks r = []" by simp
      with False assms(1-5) show ?thesis
        unfolding r'
        by (simp add: onMessage_user_effects onMessage_user_tasks onMessage_user_generating
            del: onMessage.simps)
    qed
  next
    case False
    then have "\<And>uid utext. m \<noteq> Msg (UserMessage uid utext)" by blast
    from onMessage_other [OF this, of s now1 now2 uuid r] Receive assms(1-5)
    show ?thesis
      by (auto simp: r'_def simp del: onMessage.simps)
  qed
next
  case (Resume i u)
  show ?thesis
  proof (cases "i < length (tasks r)")
    case False
    with Resume assms show ?thesis by simp
  next
    case True
    with assms(1) obtain t where t: "tasks r = [t]" and i: "i = 0"
      by (cases "tasks r") auto
    have r'_eq: "r' = room_step parse r (Resume i u)"
      using Resume by (simp add: r'_def)
    from assms(5) t have latest: "latest_assistant None (effects r) = Some (assistant_id t)"
      by simp
    from resume_summary [OF True _ r'_eq, of "assistant_id t"] t i
    obtain ds where
      "(\<exists>t'. assistant_id t' = assistant_id t \<and> tasks r' = [t'] \<and>
            generating r' = generating r \<and>
            effects r' = effects r @ map Broadcast (map (AssistantDelta (assistant_id t)) ds)) \<or>
       (\<exists>fin. (fin = AssistantDone (assistant_id t) \<or> (\<exists>m. fin = Error m)) \<and>
            tasks r' = [] \<and> \<not> generating r' \<and>
            effects r' = effects r @ map Broadcast (map (AssistantDelta (assistant_id t)) ds) @
              [Broadcast fin, SetGenerating False])"
      by auto
    then show ?thesis
    proof
      assume "\<exists>t'. assistant_id t' = assistant_id t \<and> tasks r' = [t'] \<and>
            generating r' = generating r \<and>
            effects r' = effects r @ map Broadcast (map (AssistantDelta (assistant_id t)) ds)"
      with assms(1-4) latest t show ?thesis by auto
    next
      assume "\<exists>fin. (fin = AssistantDone (assistant_id t) \<or> (\<exists>m. fin = Error m)) \<and>
            tasks r' = [] \<and> \<not> generating r' \<and>
            effects r' = effects r @ map Broadcast (map (AssistantDelta (assistant_id t)) ds) @
              [Broadcast fin, SetGenerating False]"
      with assms(1-4) latest t show ?thesis by auto
    qed
  qed
qed

lemma reachable_invariant:
  "length (tasks (run parse new_room evs)) \<le> 1 \<and>
   (generating (run parse new_room evs) \<longleftrightarrow> tasks (run parse new_room evs) \<noteq> []) \<and>
   length (filter (\<lambda>b. b) (flag_writes (effects (run parse new_room evs)))) =
     length (filter Not (flag_writes (effects (run parse new_room evs)))) +
     length (tasks (run parse new_room evs)) \<and>
   continuity None (effects (run parse new_room evs)) \<and>
   (\<forall>t \<in> set (tasks (run parse new_room evs)).
      latest_assistant None (effects (run parse new_room evs)) = Some (assistant_id t))"
proof (induction evs rule: rev_induct)
  case Nil
  show ?case by (simp add: new_room_def)
next
  case (snoc ev evs)
  from step_invariant [of "run parse new_room evs" parse ev] snoc
  show ?case by simp
qed

lemma demo_start_room:
  "run parse new_room demo_start =
     \<lparr>conns = [\<lparr>sid = 1, fault = None,
                outbox = [MessageAdded User ''u1'' ''hi'' 5, MessageAdded Assistant ''a_X'' [] 6],
                joined = True\<rparr>],
      generating = True, tasks = [AwaitFetch ''a_X''],
      effects = [Broadcast (MessageAdded User ''u1'' ''hi'' 5), SetGenerating True,
                 Broadcast (MessageAdded Assistant ''a_X'' [] 6), Fetch ''hi'']\<rparr>"
  by (simp add: demo_start_def new_room_def accept_def Let_def broadcast_def set_generating_def
      stream_start_def send_def)

section \<open>Single flight\<close>

text \<open>
  C1.  In every room reached from a new room by any sequence of events (connections,
  closes, messages of every kind, settled promises of the upstream), at most one
  \<open>onMessage\<close> call is suspended in a generation, and the flag is set exactly when one
  is.  In any room whose flag is set, a \<open>user_message\<close> makes the handler broadcast the
  user message and then the busy error and nothing else: no request is sent
  upstream, no call is suspended, and the flag stays set.
\<close>

theorem single_flight:
  "length (tasks (run parse new_room evs)) \<le> 1 \<and>
   (generating (run parse new_room evs) \<longleftrightarrow> tasks (run parse new_room evs) \<noteq> []) \<and>
   (generating r \<longrightarrow>
      effects (room_step parse r (Receive s (Msg (UserMessage uid utext)) now1 now2 uuid)) =
        effects r @ [Broadcast (MessageAdded User uid utext now1), Broadcast busy_error] \<and>
      tasks (room_step parse r (Receive s (Msg (UserMessage uid utext)) now1 now2 uuid)) = tasks r \<and>
      generating (room_step parse r (Receive s (Msg (UserMessage uid utext)) now1 now2 uuid)))"
  using reachable_invariant [of parse evs]
  by (simp add: onMessage_user_effects onMessage_user_tasks onMessage_user_generating busy_error_def
      del: onMessage.simps)

text \<open>A second user message while the first generation awaits the upstream.\<close>

theorem single_flight_witness:
  "tasks (run demo_parse new_room demo_start) = [AwaitFetch ''a_X''] \<and>
   generating (run demo_parse new_room demo_start) \<and>
   effects (room_step demo_parse (run demo_parse new_room demo_start)
      (Receive 1 (Msg (UserMessage ''u2'' ''salt?'')) 7 8 ''Y'')) =
     [Broadcast (MessageAdded User ''u1'' ''hi'' 5), SetGenerating True,
      Broadcast (MessageAdded Assistant ''a_X'' [] 6), Fetch ''hi'',
      Broadcast (MessageAdded User ''u2'' ''salt?'' 7), Broadcast busy_error] \<and>
   tasks (room_step demo_parse (run demo_parse new_room demo_start)
      (Receive 1 (Msg (UserMessage ''u2'' ''salt?'')) 7 8 ''Y'')) = [AwaitFetch ''a_X'']"
proof -
  have g: "generating (run demo_parse new_room demo_start)"
    by (simp add: demo_start_room)
  show ?thesis
    using g single_flight [of demo_parse demo_start "run demo_parse new_room demo_start"
        1 "''u2''" "''salt?''" 7 8 "''Y''"]
    by (simp add: demo_start_room del: room_step.simps)
qed

section \<open>Release of the flag\<close>

lemma exit_fetch_rejected:
  assumes "i < length (tasks r)" "tasks r ! i = AwaitFetch aid"
  shows "exited i [] (Error (error_message e)) r (room_step parse r (Resume i (FetchSettled (Inl e))))"
  using assms by (simp add: exited_def)

lemma exit_upstream_unavailable:
  assumes "i < length (tasks r)" "tasks r ! i = AwaitFetch aid" "\<not> ok resp \<or> \<not> has_body resp"
  shows "exited i []
           (Error (''OpenAI error '' @ digits (status resp) @ '': '' @
                   (case res of Inl e \<Rightarrow> [] | Inr t \<Rightarrow> t))) r
           (run parse r [Resume i (FetchSettled (Inr resp)), Resume i (TextSettled res)])"
  using assms by (auto simp: exited_def Let_def)

lemma exit_read_rejected:
  assumes "i < length (tasks r)" "tasks r ! i = AwaitRead aid buf"
  shows "exited i [] (Error (error_message e)) r (room_step parse r (Resume i (ReadSettled (Inl e))))"
  using assms by (simp add: exited_def)

lemma exit_end_of_data:
  assumes "i < length (tasks r)" "tasks r ! i = AwaitRead aid buf"
  shows "exited i [] (AssistantDone aid) r (room_step parse r (Resume i (ReadSettled (Inr None))))"
  using assms by (simp add: exited_def)

lemma exit_sentinel:
  assumes "i < length (tasks r)" "tasks r ! i = AwaitRead aid buf"
    "\<exists>l \<in> set (lines_of (buf @ c)). is_sentinel l"
  shows "exited i (map (AssistantDelta aid) (fragments parse (lines_of (buf @ c))))
           (AssistantDone aid) r (room_step parse r (Resume i (ReadSettled (Inr (Some c)))))"
  using assms by (simp add: exited_def stream_resume_chunk del: stream_resume.simps)

lemma resume_exits_or_suspends:
  assumes "i < length (tasks r)"
  shows "\<exists>ds.
     (effects (room_step parse r (Resume i u)) = effects r @ map Broadcast ds \<and>
      generating (room_step parse r (Resume i u)) = generating r \<and>
      length (tasks (room_step parse r (Resume i u))) = length (tasks r)) \<or>
     (\<exists>fin. exited i ds fin r (room_step parse r (Resume i u)))"
proof -
  define r' where "r' = room_step parse r (Resume i u)"
  define aid where "aid = assistant_id (tasks r ! i)"
  from resume_summary [OF assms aid_def r'_def]
  obtain ds where
    "(\<exists>t'. assistant_id t' = aid \<and> tasks r' = (tasks r)[i := t'] \<and>
        generating r' = generating r \<and>
        effects r' = effects r @ map Broadcast (map (AssistantDelta aid) ds)) \<or>
     (\<exists>fin. (fin = AssistantDone aid \<or> (\<exists>m. fin = Error m)) \<and>
        tasks r' = take i (tasks r) @ drop (Suc i) (tasks r) \<and>
        \<not> generating r' \<and>
        effects r' = effects r @ map Broadcast (map (AssistantDelta aid) ds) @
            [Broadcast fin, SetGenerating False])"
    by blast
  then have "(effects r' = effects r @ map Broadcast (map (AssistantDelta aid) ds) \<and>
      generating r' = generating r \<and> length (tasks r') = length (tasks r)) \<or>
     (\<exists>fin. exited i (map (AssistantDelta aid) ds) fin r r')"
    unfolding exited_def by auto
  then show ?thesis
    unfolding r'_def by blast
qed

text \<open>
  C2.  Let \<open>i\<close> be a suspended generation of a room \<open>r\<close>.  On each exit path the step
  that ends it broadcasts one terminal event and then clears the flag, once, as its
  last effect, and removes the suspended call: a rejected \<open>fetch\<close>, a response that is not
  successful or has no body (after its text is read, or could not be read), and a
  rejected \<open>read\<close> end with an \<open>error\<close> event carrying the message; the end of the data and
  the sentinel end with \<open>assistant_done\<close>.  Whatever promise settles, the step either
  leaves the generation suspended, with the flag untouched and only broadcasts added, or
  ends it in that way: no effect is ever a rejected \<open>onMessage\<close> promise.  In every room
  reached from a new room, the writes of \<open>True\<close> to the flag are as many as the writes of
  \<open>False\<close> plus the generations still suspended: every generation that is over has cleared
  the flag exactly once.
\<close>

theorem flag_released_on_every_exit:
  assumes "i < length (tasks r)"
  shows
  "(tasks r ! i = AwaitFetch aid \<longrightarrow>
      exited i [] (Error (error_message e)) r
        (room_step parse r (Resume i (FetchSettled (Inl e))))) \<and>
   (tasks r ! i = AwaitFetch aid \<and> (\<not> ok resp \<or> \<not> has_body resp) \<longrightarrow>
      exited i []
        (Error (''OpenAI error '' @ digits (status resp) @ '': '' @
                (case res of Inl e \<Rightarrow> [] | Inr t \<Rightarrow> t))) r
        (run parse r [Resume i (FetchSettled (Inr resp)), Resume i (TextSettled res)])) \<and>
   (tasks r ! i = AwaitRead aid buf \<longrightarrow>
      exited i [] (Error (error_message e)) r
        (room_step parse r (Resume i (ReadSettled (Inl e))))) \<and>
   (tasks r ! i = AwaitRead aid buf \<longrightarrow>
      exited i [] (AssistantDone aid) r
        (room_step parse r (Resume i (ReadSettled (Inr None))))) \<and>
   (tasks r ! i = AwaitRead aid buf \<and> (\<exists>l \<in> set (lines_of (buf @ c)). is_sentinel l) \<longrightarrow>
      exited i (map (AssistantDelta aid) (fragments parse (lines_of (buf @ c))))
        (AssistantDone aid) r
        (room_step parse r (Resume i (ReadSettled (Inr (Some c)))))) \<and>
   (\<forall>u. \<exists>ds.
      (effects (room_step parse r (Resume i u)) = effects r @ map Broadcast ds \<and>
       generating (room_step parse r (Resume i u)) = generating r \<and>
       length (tasks (room_step parse r (Resume i u))) = length (tasks r)) \<or>
      (\<exists>fin. exited i ds fin r (room_step parse r (Resume i u)))) \<and>
   length (filter (\<lambda>b. b) (flag_writes (effects (run parse new_room evs)))) =
     length (filter Not (flag_writes (effects (run parse new_room evs)))) +
     length (tasks (run parse new_room evs))"
proof -
  note a = assms
  have "length (filter (\<lambda>b. b) (flag_writes (effects (run parse new_room evs)))) =
     length (filter Not (flag_writes (effects (run parse new_room evs)))) +
     length (tasks (run parse new_room evs))"
    using reachable_invariant [of parse evs] by blast
  moreover have "\<forall>u. \<exists>ds.
      (effects (room_step parse r (Resume i u)) = effects r @ map Broadcast ds \<and>
       generating (room_step parse r (Resume i u)) = generating r \<and>
       length (tasks (room_step parse r (Resume i u))) = length (tasks r)) \<or>
      (\<exists>fin. exited i ds fin r (room_step parse r (Resume i u)))"
    using resume_exits_or_suspends [OF a] by blast
  ultimately show ?thesis
    using exit_fetch_rejected [OF a] exit_upstream_unavailable [OF a] exit_read_rejected [OF a]
      exit_end_of_data [OF a] exit_sentinel [OF a]
    by blast
qed

lemma demo_reading_room:
  "run parse new_room demo_reading =
     \<lparr>conns = [\<lparr>sid = 1, fault = None,
                outbox = [MessageAdded User ''u1'' ''hi'' 5, MessageAdded Assistant ''a_X'' [] 6],
                joined = True\<rparr>],
      generating = True, tasks = [AwaitRead ''a_X'' []],
      effects = [Broadcast (MessageAdded User ''u1'' ''hi'' 5), SetGenerating True,
                 Broadcast (MessageAdded Assistant ''a_X'' [] 6), Fetch ''hi'']\<rparr>"
  by (simp add: demo_reading_def demo_start_room ok_response_def)

lemma demo_done_chunk:
  "\<exists>l \<in> set (lines_of ([] @ ''data: [DONE]\<newline>\<newline>'')). is_sentinel l"
  "fragments demo_parse (lines_of ([] @ ''data: [DONE]\<newline>\<newline>'')) = []"
  by code_simp+

text \<open>Every exit path after a user message: a rejected \<open>fetch\<close>, a 503 response, a
  rejected \<open>read\<close>, the end of the data and the sentinel.\<close>

theorem flag_released_on_every_exit_witness:
  "effects (run demo_parse new_room (demo_start @ [Resume 0 (FetchSettled (Inl (Exn None)))])) =
     [Broadcast (MessageAdded User ''u1'' ''hi'' 5), SetGenerating True,
      Broadcast (MessageAdded Assistant ''a_X'' [] 6), Fetch ''hi'',
      Broadcast (Error ''Assistant error''), SetGenerating False] \<and>
   effects (run demo_parse new_room
      (demo_start @ [Resume 0 (FetchSettled (Inr unavailable)), Resume 0 (TextSettled (Inr ''down''))])) =
     [Broadcast (MessageAdded User ''u1'' ''hi'' 5), SetGenerating True,
      Broadcast (MessageAdded Assistant ''a_X'' [] 6), Fetch ''hi'',
      Broadcast (Error ''OpenAI error 503: down''), SetGenerating False] \<and>
   tasks (run demo_parse new_room
      (demo_start @ [Resume 0 (FetchSettled (Inr unavailable)), Resume 0 (TextSettled (Inr ''down''))])) = [] \<and>
   effects (run demo_parse new_room
      (demo_reading @ [Resume 0 (ReadSettled (Inl (Exn (Some ''reset''))))])) =
     [Broadcast (MessageAdded User ''u1'' ''hi'' 5), SetGenerating True,
      Broadcast (MessageAdded Assistant ''a_X'' [] 6), Fetch ''hi'',
      Broadcast (Error ''reset''), SetGenerating False] \<and>
   effects (run demo_parse new_room (demo_reading @ [Resume 0 (ReadSettled (Inr None))])) =
     [Broadcast (MessageAdded User ''u1'' ''hi'' 5), SetGenerating True,
      Broadcast (MessageAdded Assistant ''a_X'' [] 6), Fetch ''hi'',
      Broadcast (AssistantDone ''a_X''), SetGenerating False] \<and>
   effects (run demo_parse new_room
      (demo_reading @ [Resume 0 (ReadSettled (Inr (Some ''data: [DONE]\<newline>\<newline>'')))])) =
     [Broadcast (MessageAdded User ''u1'' ''hi'' 5), SetGenerating True,
      Broadcast (MessageAdded Assistant ''a_X'' [] 6), Fetch ''hi'',
      Broadcast (AssistantDone ''a_X''), SetGenerating False]"
proof -
  define R where "R = run demo_parse new_room demo_start"
  have R: "tasks R = [AwaitFetch ''a_X'']"
    "effects R = [Broadcast (MessageAdded User ''u1'' ''hi'' 5), SetGenerating True,
      Broadcast (MessageAdded Assistant ''a_X'' [] 6), Fetch ''hi'']"
    by (simp_all add: R_def demo_start_room)
  have h: "0 < length (tasks R)" by (simp add: R)
  have d: "digits 503 = ''503''" by (simp add: digits.simps)
  note t = flag_released_on_every_exit [OF h, of "''a_X''" "Exn None" demo_parse unavailable
      "Inr ''down''" "[]" "[]" "[]"]
  from t R have a: "exited 0 [] (Error (error_message (Exn None))) R
        (room_step demo_parse R (Resume 0 (FetchSettled (Inl (Exn None)))))"
    by simp
  from t R have b: "exited 0 [] (Error (''OpenAI error '' @ digits (status unavailable) @ '': '' @ ''down'')) R
        (run demo_parse R [Resume 0 (FetchSettled (Inr unavailable)), Resume 0 (TextSettled (Inr ''down''))])"
    by (simp add: unavailable_def)
  define Q where "Q = run demo_parse new_room demo_reading"
  have Q: "tasks Q = [AwaitRead ''a_X'' []]"
    "effects Q = [Broadcast (MessageAdded User ''u1'' ''hi'' 5), SetGenerating True,
      Broadcast (MessageAdded Assistant ''a_X'' [] 6), Fetch ''hi'']"
    by (simp_all add: Q_def demo_reading_room)
  have k: "0 < length (tasks Q)" by (simp add: Q)
  note u = flag_released_on_every_exit [OF k, of "''a_X''" "Exn (Some ''reset'')" demo_parse
      unavailable "Inr ''down''" "[]" "''data: [DONE]\<newline>\<newline>''" "[]"]
  from u Q have c: "exited 0 [] (Error (error_message (Exn (Some ''reset'')))) Q
        (room_step demo_parse Q (Resume 0 (ReadSettled (Inl (Exn (Some ''reset''))))))"
    by simp
  from u Q have e: "exited 0 [] (AssistantDone ''a_X'') Q
        (room_step demo_parse Q (Resume 0 (ReadSettled (Inr None))))"
    by simp
  from u Q demo_done_chunk have f: "exited 0 [] (AssistantDone ''a_X'') Q
        (room_step demo_parse Q (Resume 0 (ReadSettled (Inr (Some ''data: [DONE]\<newline>\<newline>'')))))"
    by (simp del: room_step.simps)
  from a b R d have
    "effects (run demo_parse R [Resume 0 (FetchSettled (Inl (Exn None)))]) =
       [Broadcast (MessageAdded User ''u1'' ''hi'' 5), SetGenerating True,
        Broadcast (MessageAdded Assistant ''a_X'' [] 6), Fetch ''hi'',
        Broadcast (Error ''Assistant error''), SetGenerating False]"
    "effects (run demo_parse R [Resume 0 (FetchSettled (Inr unavailable)), Resume 0 (TextSettled (Inr ''down''))]) =
       [Broadcast (MessageAdded User ''u1'' ''hi'' 5), SetGenerating True,
        Broadcast (MessageAdded Assistant ''a_X'' [] 6), Fetch ''hi'',
        Broadcast (Error ''OpenAI error 503: down''), SetGenerating False]"
    "tasks (run demo_parse R [Resume 0 (FetchSettled (Inr unavailable)), Resume 0 (TextSettled (Inr ''down''))]) = []"
    unfolding exited_def by (simp_all add: unavailable_def del: room_step.simps)
  moreover from c e f Q have
    "effects (run demo_parse Q [Resume 0 (ReadSettled (Inl (Exn (Some ''reset''))))]) =
       [Broadcast (MessageAdded User ''u1'' ''hi'' 5), SetGenerating True,
        Broadcast (MessageAdded Assistant ''a_X'' [] 6), Fetch ''hi'',
        Broadcast (Error ''reset''), SetGenerating False]"
    "effects (run demo_parse Q [Resume 0 (ReadSettled (Inr None))]) =
       [Broadcast (MessageAdded User ''u1'' ''hi'' 5), SetGenerating True,
        Broadcast (MessageAdded Assistant ''a_X'' [] 6), Fetch ''hi'',
        Broadcast (AssistantDone ''a_X''), SetGenerating False]"
    "effects (run demo_parse Q [Resume 0 (ReadSettled (Inr (Some ''data: [DONE]\<newline>\<newline>'')))]) =
       [Broadcast (MessageAdded User ''u1'' ''hi'' 5), SetGenerating True,
        Broadcast (MessageAdded Assistant ''a_X'' [] 6), Fetch ''hi'',
        Broadcast (AssistantDone ''a_X''), SetGenerating False]"
    unfolding exited_def by (simp_all del: room_step.simps)
  ultimately show ?thesis
    by (simp only: run_simps(3) R_def Q_def simp_thms)
qed

section \<open>Identifier continuity\<close>

text \<open>
  C3.  In every room reached from a new room, every \<open>assistant_delta\<close> and
  \<open>assistant_done\<close> broadcast so far carries the identifier of the last \<open>message_added\<close>
  with role assistant broadcast before it, so none refers to an identifier that was not
  introduced; and that last identifier is the one of the suspended generation.  A
  generation starts by broadcasting \<open>message_added\<close> with role assistant and the fresh
  identifier, before the request is sent, and keeps that identifier: every step of it
  broadcasts only deltas with that identifier, then possibly \<open>assistant_done\<close> with that
  identifier or an error.
\<close>

theorem identifier_continuity:
  "continuity None (effects (run parse new_room evs)) \<and>
   (\<forall>t \<in> set (tasks (run parse new_room evs)).
      latest_assistant None (effects (run parse new_room evs)) = Some (assistant_id t)) \<and>
   (\<not> generating r \<longrightarrow>
      effects (onMessage s (Msg (UserMessage uid utext)) now1 now2 uuid r) =
        effects r @ [Broadcast (MessageAdded User uid utext now1), SetGenerating True,
                     Broadcast (MessageAdded Assistant (''a_'' @ uuid) [] now2), Fetch utext] \<and>
      tasks (onMessage s (Msg (UserMessage uid utext)) now1 now2 uuid r) =
        tasks r @ [AwaitFetch (''a_'' @ uuid)]) \<and>
   (i < length (tasks r) \<longrightarrow>
      (\<exists>ds.
         (\<exists>t'. assistant_id t' = assistant_id (tasks r ! i) \<and>
            tasks (room_step parse r (Resume i u)) = (tasks r)[i := t'] \<and>
            effects (room_step parse r (Resume i u)) =
              effects r @ map Broadcast (map (AssistantDelta (assistant_id (tasks r ! i))) ds)) \<or>
         (\<exists>fin. (fin = AssistantDone (assistant_id (tasks r ! i)) \<or> (\<exists>m. fin = Error m)) \<and>
            tasks (room_step parse r (Resume i u)) = take i (tasks r) @ drop (Suc i) (tasks r) \<and>
            effects (room_step parse r (Resume i u)) =
              effects r @ map Broadcast (map (AssistantDelta (assistant_id (tasks r ! i))) ds) @
                [Broadcast fin, SetGenerating False])))"
proof -
  have start: "effects (onMessage s (Msg (UserMessage uid utext)) now1 now2 uuid r) =
        effects r @ [Broadcast (MessageAdded User uid utext now1), SetGenerating True,
                     Broadcast (MessageAdded Assistant (''a_'' @ uuid) [] now2), Fetch utext] \<and>
      tasks (onMessage s (Msg (UserMessage uid utext)) now1 now2 uuid r) =
        tasks r @ [AwaitFetch (''a_'' @ uuid)]"
    if "\<not> generating r"
    using that
    by (simp add: onMessage_user_effects onMessage_user_tasks del: onMessage.simps)
  have resume: "\<exists>ds.
         (\<exists>t'. assistant_id t' = assistant_id (tasks r ! i) \<and>
            tasks (room_step parse r (Resume i u)) = (tasks r)[i := t'] \<and>
            effects (room_step parse r (Resume i u)) =
              effects r @ map Broadcast (map (AssistantDelta (assistant_id (tasks r ! i))) ds)) \<or>
         (\<exists>fin. (fin = AssistantDone (assistant_id (tasks r ! i)) \<or> (\<exists>m. fin = Error m)) \<and>
            tasks (room_step parse r (Resume i u)) = take i (tasks r) @ drop (Suc i) (tasks r) \<and>
            effects (room_step parse r (Resume i u)) =
              effects r @ map Broadcast (map (AssistantDelta (assistant_id (tasks r ! i))) ds) @
                [Broadcast fin, SetGenerating False])"
    if "i < length (tasks r)"
  proof -
    define r' where "r' = room_step parse r (Resume i u)"
    define aid where "aid = assistant_id (tasks r ! i)"
    from resume_summary [OF that aid_def r'_def] show ?thesis
      unfolding r'_def [symmetric] aid_def [symmetric] by blast
  qed
  from reachable_invariant [of parse evs] start resume show ?thesis
    by blast
qed

lemma demo_generation_effects:
  "effects (run demo_parse new_room demo_generation) =
     [Broadcast (MessageAdded User ''u1'' ''hi'' 5), SetGenerating True,
      Broadcast (MessageAdded Assistant ''a_X'' [] 6), Fetch ''hi'',
      Broadcast (AssistantDelta ''a_X'' (JStr ''Pre'')),
      Broadcast (AssistantDelta ''a_X'' (JStr ''heat '')),
      Broadcast (AssistantDelta ''a_X'' (JStr ''oven.'')),
      Broadcast (AssistantDone ''a_X''), SetGenerating False]"
  by code_simp

lemma demo_mid_room:
  \<open>tasks (run demo_parse new_room demo_mid) = [AwaitRead ''a_X'' ''data: {"choi'']\<close>
  "effects (run demo_parse new_room demo_mid) =
     [Broadcast (MessageAdded User ''u1'' ''hi'' 5), SetGenerating True,
      Broadcast (MessageAdded Assistant ''a_X'' [] 6), Fetch ''hi'',
      Broadcast (AssistantDelta ''a_X'' (JStr ''Pre''))]"
  by code_simp+

text \<open>A whole generation that relays three fragments, and the same generation after its
  first chunk.\<close>

theorem identifier_continuity_witness:
  \<open>effects (run demo_parse new_room demo_generation) =
     [Broadcast (MessageAdded User ''u1'' ''hi'' 5), SetGenerating True,
      Broadcast (MessageAdded Assistant ''a_X'' [] 6), Fetch ''hi'',
      Broadcast (AssistantDelta ''a_X'' (JStr ''Pre'')),
      Broadcast (AssistantDelta ''a_X'' (JStr ''heat '')),
      Broadcast (AssistantDelta ''a_X'' (JStr ''oven.'')),
      Broadcast (AssistantDone ''a_X''), SetGenerating False] \<and>
   continuity None
     [Broadcast (MessageAdded User ''u1'' ''hi'' 5), SetGenerating True,
      Broadcast (MessageAdded Assistant ''a_X'' [] 6), Fetch ''hi'',
      Broadcast (AssistantDelta ''a_X'' (JStr ''Pre'')),
      Broadcast (AssistantDelta ''a_X'' (JStr ''heat '')),
      Broadcast (AssistantDelta ''a_X'' (JStr ''oven.'')),
      Broadcast (AssistantDone ''a_X''), SetGenerating False] \<and>
   tasks (run demo_parse new_room demo_mid) = [AwaitRead ''a_X'' ''data: {"choi''] \<and>
   effects (run demo_parse new_room demo_mid) =
     [Broadcast (MessageAdded User ''u1'' ''hi'' 5), SetGenerating True,
      Broadcast (MessageAdded Assistant ''a_X'' [] 6), Fetch ''hi'',
      Broadcast (AssistantDelta ''a_X'' (JStr ''Pre''))] \<and>
   latest_assistant None (effects (run demo_parse new_room demo_mid)) = Some ''a_X'' \<and>
   continuity None (effects (run demo_parse new_room demo_mid)) \<and>
   (\<exists>ds t'. assistant_id t' = ''a_X'' \<and>
      tasks (run demo_parse new_room demo_mid) = [t'] \<and>
      effects (run demo_parse new_room demo_mid) =
        effects (run demo_parse new_room demo_reading) @
          map Broadcast (map (AssistantDelta ''a_X'') ds)) \<and>
   effects (onMessage 1 (Msg (UserMessage ''u1'' ''hi'')) 5 6 ''X'' demo_room) =
     [Broadcast (MessageAdded User ''u1'' ''hi'' 5), SetGenerating True,
      Broadcast (MessageAdded Assistant ''a_X'' [] 6), Fetch ''hi'']\<close>
proof -
  define Q where "Q = run demo_parse new_room demo_reading"
  define c where "c = ReadSettled (Inr (Some (hd demo_chunks)))"
  have Q: "tasks Q = [AwaitRead ''a_X'' []]"
    by (simp add: Q_def demo_reading_room)
  have l: "0 < length (tasks Q)" by (simp add: Q)
  have g: "\<not> generating demo_room" by (simp add: demo_room_def)
  have mid: "run demo_parse new_room demo_mid = room_step demo_parse Q (Resume 0 c)"
    by (simp add: demo_mid_def reads_def Q_def c_def demo_chunks_def del: room_step.simps)
  note full = identifier_continuity [of demo_parse demo_generation demo_room 1 "''u1''" "''hi''"
      5 6 "''X''" 0 c]
  note part = identifier_continuity [of demo_parse demo_mid Q 1 "''u1''" "''hi''" 5 6 "''X''" 0 c]
  from full have "continuity None (effects (run demo_parse new_room demo_generation))"
    by blast
  then have a: "continuity None
     [Broadcast (MessageAdded User ''u1'' ''hi'' 5), SetGenerating True,
      Broadcast (MessageAdded Assistant ''a_X'' [] 6), Fetch ''hi'',
      Broadcast (AssistantDelta ''a_X'' (JStr ''Pre'')),
      Broadcast (AssistantDelta ''a_X'' (JStr ''heat '')),
      Broadcast (AssistantDelta ''a_X'' (JStr ''oven.'')),
      Broadcast (AssistantDone ''a_X''), SetGenerating False]"
    by (simp only: demo_generation_effects)
  from part have b: "continuity None (effects (run demo_parse new_room demo_mid))"
    by blast
  from part demo_mid_room(1) have d: "latest_assistant None (effects (run demo_parse new_room demo_mid)) = Some ''a_X''"
    by simp
  from part l have "\<exists>ds.
         (\<exists>t'. assistant_id t' = assistant_id (tasks Q ! 0) \<and>
            tasks (room_step demo_parse Q (Resume 0 c)) = (tasks Q)[0 := t'] \<and>
            effects (room_step demo_parse Q (Resume 0 c)) =
              effects Q @ map Broadcast (map (AssistantDelta (assistant_id (tasks Q ! 0))) ds)) \<or>
         (\<exists>fin. (fin = AssistantDone (assistant_id (tasks Q ! 0)) \<or> (\<exists>m. fin = Error m)) \<and>
            tasks (room_step demo_parse Q (Resume 0 c)) = take 0 (tasks Q) @ drop (Suc 0) (tasks Q) \<and>
            effects (room_step demo_parse Q (Resume 0 c)) =
              effects Q @ map Broadcast (map (AssistantDelta (assistant_id (tasks Q ! 0))) ds) @
                [Broadcast fin, SetGenerating False])"
    by blast
  then have e: "\<exists>ds t'. assistant_id t' = ''a_X'' \<and>
      tasks (run demo_parse new_room demo_mid) = [t'] \<and>
      effects (run demo_parse new_room demo_mid) =
        effects Q @ map Broadcast (map (AssistantDelta ''a_X'') ds)"
    unfolding mid [symmetric] using demo_mid_room(1) Q
    by (auto simp del: room_step.simps)
  from full g have f: "effects (onMessage 1 (Msg (UserMessage ''u1'' ''hi'')) 5 6 ''X'' demo_room) =
     [Broadcast (MessageAdded User ''u1'' ''hi'' 5), SetGenerating True,
      Broadcast (MessageAdded Assistant ''a_X'' [] 6), Fetch ''hi'']"
    by (simp add: demo_room_def del: onMessage.simps)
  from a b d e f demo_generation_effects demo_mid_room show ?thesis
    unfolding Q_def by blast
qed

section \<open>Splitting at blank lines, chunk by chunk\<close>

lemma split_line_Nil: "split [] [newline] = [[]]"
  by (subst split.simps) simp

lemma split_line_match: "split (newline # s) [newline] = [] # split s [newline]"
  by (subst split.simps) simp

lemma split_line_nomatch:
  "c \<noteq> newline \<Longrightarrow>
   split (c # s) [newline] = (case split s [newline] of [] \<Rightarrow> [[c]] | p # ps \<Rightarrow> (c # p) # ps)"
  by (subst split.simps) (simp split: list.splits)

lemma split_blank_Nil: "split [] [newline, newline] = [[]]"
  by (subst split.simps) simp

lemma split_blank_one: "split [c] [newline, newline] = [[c]]"
  by (subst split.simps) (simp add: split_blank_Nil)

lemma split_blank_match:
  "split (newline # newline # s) [newline, newline] = [] # split s [newline, newline]"
  by (subst split.simps) simp

lemma split_blank_nomatch:
  "\<not> (c = newline \<and> d = newline) \<Longrightarrow>
   split (c # d # s) [newline, newline] =
     (case split (d # s) [newline, newline] of [] \<Rightarrow> [[c]] | p # ps \<Rightarrow> (c # p) # ps)"
  by (subst split.simps) (auto split: list.splits)


lemma split_blank_single:
  "split s [newline, newline] = [q] \<Longrightarrow> q = s"
proof (induction s arbitrary: q rule: induct_list012)
  case 1
  then show ?case by (simp add: split_blank_Nil)
next
  case (2 x)
  then show ?case by (simp add: split_blank_one)
next
  case (3 c d s)
  show ?case
  proof (cases "c = newline \<and> d = newline")
    case True
    with 3(3) show ?thesis
      by (simp add: split_blank_match split_nonempty)
  next
    case False
    obtain p ps where ps: "split (d # s) [newline, newline] = p # ps"
      by (cases "split (d # s) [newline, newline]") (simp_all add: split_nonempty)
    from 3(3) have "(c # p) # ps = [q]"
      by (simp add: split_blank_nomatch [OF False] ps)
    then have "ps = []" "q = c # p" by simp_all
    with ps 3(2) [of p] show ?thesis by simp
  qed
qed

lemma split_blank_append:
  "split (s @ t) [newline, newline] =
     butlast (split s [newline, newline]) @
     split (last (split s [newline, newline]) @ t) [newline, newline]"
proof (induction s rule: induct_list012)
  case 1
  show ?case by (simp add: split_blank_Nil)
next
  case (2 x)
  show ?case by (simp add: split_blank_one)
next
  case (3 c d s)
  show ?case
  proof (cases "c = newline \<and> d = newline")
    case True
    then show ?thesis
      using 3(1) by (simp add: split_blank_match split_nonempty)
  next
    case False
    obtain p ps where ps: "split (d # s) [newline, newline] = p # ps"
      by (cases "split (d # s) [newline, newline]") (simp_all add: split_nonempty)
    have whole: "split (c # d # s) [newline, newline] = (c # p) # ps"
      by (simp add: split_blank_nomatch [OF False] ps)
    show ?thesis
    proof (cases ps)
      case Nil
      with ps have "p = d # s" using split_blank_single by simp
      with whole Nil show ?thesis by simp
    next
      case (Cons p' ps')
      from 3(2) ps Cons have rest:
        "split (d # s @ t) [newline, newline] =
           p # butlast (p' # ps') @ split (last (p' # ps') @ t) [newline, newline]"
        by simp
      have "split ((c # d # s) @ t) [newline, newline] =
           (c # p) # butlast (p' # ps') @ split (last (p' # ps') @ t) [newline, newline]"
        using split_blank_nomatch [OF False, of "s @ t"] rest by simp
      with whole Cons show ?thesis by simp
    qed
  qed
qed

lemma lines_of_append:
  "lines_of (s @ t) = lines_of s @ lines_of (last (split s [newline, newline]) @ t)"
  by (simp add: lines_of_def split_blank_append [of s t] butlast_append split_nonempty)

lemma last_split_append:
  "last (split (s @ t) [newline, newline]) =
     last (split (last (split s [newline, newline]) @ t) [newline, newline])"
  by (simp add: split_blank_append [of s t] split_nonempty)

section \<open>A stream read in chunks\<close>

lemma tasks_update_commute [simp]:
  "broadcast m (r\<lparr>tasks := ts\<rparr>) = (broadcast m r)\<lparr>tasks := ts\<rparr>"
  "set_generating b (r\<lparr>tasks := ts\<rparr>) = (set_generating b r)\<lparr>tasks := ts\<rparr>"
  "drop_task i (r\<lparr>tasks := ts\<rparr>) = r\<lparr>tasks := take i ts @ drop (Suc i) ts\<rparr>"
  by (simp_all add: broadcast_def set_generating_def drop_task_def)

lemma broadcast_all_tasks_update [simp]:
  "broadcast_all ms (r\<lparr>tasks := ts\<rparr>) = (broadcast_all ms r)\<lparr>tasks := ts\<rparr>"
  by (induction ms arbitrary: r) simp_all

lemma run_reads_idle: "tasks r = [] \<Longrightarrow> run parse r (reads i cs) = r"
  by (induction cs) (simp_all add: reads_def)

lemma read_step:
  assumes "tasks r = [AwaitRead aid buf]"
  shows "room_step parse r (Resume 0 (ReadSettled (Inr (Some c)))) =
     (if \<exists>l \<in> set (lines_of (buf @ c)). is_sentinel l
      then drop_task 0 (set_generating False (broadcast (AssistantDone aid)
             (broadcast_all (map (AssistantDelta aid) (fragments parse (lines_of (buf @ c)))) r)))
      else (broadcast_all (map (AssistantDelta aid) (fragments parse (lines_of (buf @ c)))) r)
             \<lparr>tasks := [AwaitRead aid (last (split (buf @ c) [newline, newline]))]\<rparr>)"
  using assms by (simp add: stream_resume_chunk del: stream_resume.simps)

lemma run_reads:
  assumes "tasks r = [AwaitRead aid buf]"
  shows "run parse r (reads 0 (c # cs)) =
     (if \<exists>l \<in> set (lines_of (buf @ concat (c # cs))). is_sentinel l
      then drop_task 0 (set_generating False (broadcast (AssistantDone aid)
             (broadcast_all (map (AssistantDelta aid)
                (fragments parse (lines_of (buf @ concat (c # cs))))) r)))
      else (broadcast_all (map (AssistantDelta aid)
                (fragments parse (lines_of (buf @ concat (c # cs))))) r)
             \<lparr>tasks := [AwaitRead aid (last (split (buf @ concat (c # cs)) [newline, newline]))]\<rparr>)"
  using assms
proof (induction cs arbitrary: c buf r)
  case Nil
  then show ?case
    by (simp add: reads_def read_step del: room_step.simps)
next
  case (Cons c' cs)
  define r1 where "r1 = broadcast_all (map (AssistantDelta aid) (fragments parse (lines_of (buf @ c)))) r"
  define b' where "b' = last (split (buf @ c) [newline, newline])"
  have t1: "tasks r1 = [AwaitRead aid buf]" using Cons.prems by (simp add: r1_def)
  have lines: "lines_of (buf @ concat (c # c' # cs)) =
      lines_of (buf @ c) @ lines_of (b' @ concat (c' # cs))"
    using lines_of_append [of "buf @ c" "concat (c' # cs)"] by (simp add: b'_def)
  have lst: "last (split (buf @ concat (c # c' # cs)) [newline, newline]) =
      last (split (b' @ concat (c' # cs)) [newline, newline])"
    using last_split_append [of "buf @ c" "concat (c' # cs)"] by (simp add: b'_def)
  have unfold: "run parse r (reads 0 (c # c' # cs)) =
      run parse (room_step parse r (Resume 0 (ReadSettled (Inr (Some c))))) (reads 0 (c' # cs))"
    by (simp add: reads_def del: room_step.simps)
  show ?case
  proof (cases "\<exists>l \<in> set (lines_of (buf @ c)). is_sentinel l")
    case True
    then have step: "room_step parse r (Resume 0 (ReadSettled (Inr (Some c)))) =
        drop_task 0 (set_generating False (broadcast (AssistantDone aid) r1))"
      using read_step [OF Cons.prems, of parse c] by (simp add: r1_def)
    have "tasks (drop_task 0 (set_generating False (broadcast (AssistantDone aid) r1))) = []"
      using t1 by simp
    then have "run parse r (reads 0 (c # c' # cs)) =
        drop_task 0 (set_generating False (broadcast (AssistantDone aid) r1))"
      unfolding unfold step by (rule run_reads_idle)
    moreover have "fragments parse (lines_of (buf @ concat (c # c' # cs))) =
        fragments parse (lines_of (buf @ c))"
      using True by (simp only: lines fragments_append if_True)
    moreover have "\<exists>l \<in> set (lines_of (buf @ concat (c # c' # cs))). is_sentinel l"
      using True by (auto simp only: lines set_append)
    ultimately show ?thesis
      by (simp only: r1_def if_True)
  next
    case False
    then have step: "room_step parse r (Resume 0 (ReadSettled (Inr (Some c)))) =
        r1\<lparr>tasks := [AwaitRead aid b']\<rparr>"
      using read_step [OF Cons.prems, of parse c] by (simp add: r1_def b'_def)
    have t2: "tasks (r1\<lparr>tasks := [AwaitRead aid b']\<rparr>) = [AwaitRead aid b']" by simp
    have frag: "fragments parse (lines_of (buf @ concat (c # c' # cs))) =
        fragments parse (lines_of (buf @ c)) @ fragments parse (lines_of (b' @ concat (c' # cs)))"
      using False by (simp only: lines fragments_append if_False)
    have ex: "(\<exists>l \<in> set (lines_of (buf @ concat (c # c' # cs))). is_sentinel l) \<longleftrightarrow>
        (\<exists>l \<in> set (lines_of (b' @ concat (c' # cs))). is_sentinel l)"
      using False by (auto simp only: lines set_append)
    have "run parse r (reads 0 (c # c' # cs)) =
        run parse (r1\<lparr>tasks := [AwaitRead aid b']\<rparr>) (reads 0 (c' # cs))"
      unfolding unfold step ..
    also note Cons.IH [OF t2, of c']
    finally show ?thesis
      unfolding ex frag lst
      using t1 by (simp add: r1_def del: room_step.simps)
  qed
qed

lemma session_opened:
  assumes "\<not> generating r" "tasks r = []"
  shows "run parse r (session s uid utext now1 now2 uuid []) =
     (onMessage s (Msg (UserMessage uid utext)) now1 now2 uuid r)\<lparr>tasks := [AwaitRead (''a_'' @ uuid) []]\<rparr>"
  using assms
  by (simp add: session_def reads_def onMessage_user_tasks ok_response_def del: onMessage.simps)

lemma session_run:
  assumes "\<not> generating r" "tasks r = []"
  shows "effects (run parse r (session s uid utext now1 now2 uuid cs @ [end_of_data 0])) =
           effects r @
           [Broadcast (MessageAdded User uid utext now1), SetGenerating True,
            Broadcast (MessageAdded Assistant (''a_'' @ uuid) [] now2), Fetch utext] @
           map Broadcast (map (AssistantDelta (''a_'' @ uuid)) (fragments parse (lines_of (concat cs)))) @
           [Broadcast (AssistantDone (''a_'' @ uuid)), SetGenerating False]"
    and "tasks (run parse r (session s uid utext now1 now2 uuid cs @ [end_of_data 0])) = []"
    and "\<not> generating (run parse r (session s uid utext now1 now2 uuid cs @ [end_of_data 0]))"
    and "(\<exists>l \<in> set (lines_of (concat cs)). is_sentinel l) \<Longrightarrow>
         run parse r (session s uid utext now1 now2 uuid cs) =
         run parse r (session s uid utext now1 now2 uuid cs @ [end_of_data 0])"
proof -
  define r2 where "r2 = (onMessage s (Msg (UserMessage uid utext)) now1 now2 uuid r)
      \<lparr>tasks := [AwaitRead (''a_'' @ uuid) []]\<rparr>"
  have t2: "tasks r2 = [AwaitRead (''a_'' @ uuid) []]" by (simp add: r2_def)
  have e2: "effects r2 = effects r @
           [Broadcast (MessageAdded User uid utext now1), SetGenerating True,
            Broadcast (MessageAdded Assistant (''a_'' @ uuid) [] now2), Fetch utext]"
    using assms by (simp add: r2_def onMessage_user_effects del: onMessage.simps)
  have split_run: "run parse r (session s uid utext now1 now2 uuid cs) = run parse r2 (reads 0 cs)"
    using session_opened [OF assms, of parse s uid utext now1 now2 uuid]
    by (simp add: session_def r2_def reads_def del: room_step.simps)
  define final where "final = run parse r (session s uid utext now1 now2 uuid cs @ [end_of_data 0])"
  have final_eq: "final = room_step parse (run parse r2 (reads 0 cs)) (end_of_data 0)"
    by (simp add: final_def split_run del: room_step.simps)
  have "effects final = effects r @
           [Broadcast (MessageAdded User uid utext now1), SetGenerating True,
            Broadcast (MessageAdded Assistant (''a_'' @ uuid) [] now2), Fetch utext] @
           map Broadcast (map (AssistantDelta (''a_'' @ uuid)) (fragments parse (lines_of (concat cs)))) @
           [Broadcast (AssistantDone (''a_'' @ uuid)), SetGenerating False]
         \<and> tasks final = [] \<and> \<not> generating final \<and>
         ((\<exists>l \<in> set (lines_of (concat cs)). is_sentinel l) \<longrightarrow> run parse r2 (reads 0 cs) = final)"
  proof (cases cs)
    case Nil
    then show ?thesis
      using t2 e2
      by (simp add: final_eq reads_def end_of_data_def lines_of_def split_blank_Nil)
  next
    case (Cons c cs')
    note rr = run_reads [OF t2, of parse c cs']
    show ?thesis
    proof (cases "\<exists>l \<in> set (lines_of (concat cs)). is_sentinel l")
      case True
      with rr Cons t2 e2 show ?thesis
        by (simp add: final_eq end_of_data_def)
    next
      case False
      with rr Cons t2 e2 show ?thesis
        by (simp add: final_eq end_of_data_def)
    qed
  qed
  then show "effects (run parse r (session s uid utext now1 now2 uuid cs @ [end_of_data 0])) =
           effects r @
           [Broadcast (MessageAdded User uid utext now1), SetGenerating True,
            Broadcast (MessageAdded Assistant (''a_'' @ uuid) [] now2), Fetch utext] @
           map Broadcast (map (AssistantDelta (''a_'' @ uuid)) (fragments parse (lines_of (concat cs)))) @
           [Broadcast (AssistantDone (''a_'' @ uuid)), SetGenerating False]"
    and "tasks (run parse r (session s uid utext now1 now2 uuid cs @ [end_of_data 0])) = []"
    and "\<not> generating (run parse r (session s uid utext now1 now2 uuid cs @ [end_of_data 0]))"
    and "(\<exists>l \<in> set (lines_of (concat cs)). is_sentinel l) \<Longrightarrow>
         run parse r (session s uid utext now1 now2 uuid cs) =
         run parse r (session s uid utext now1 now2 uuid cs @ [end_of_data 0])"
    unfolding final_def [symmetric] split_run by blast+
qed

section \<open>Streams of fragments\<close>

lemma split_blank_block:
  "newline \<notin> set x \<Longrightarrow>
   split (x @ newline # newline # y) [newline, newline] = x # split y [newline, newline]"
proof (induction x)
  case Nil
  show ?case by (simp add: split_blank_match)
next
  case (Cons c x)
  then have c: "c \<noteq> newline" and x: "newline \<notin> set x" by auto
  obtain d s where ds: "x @ newline # newline # y = d # s"
    by (cases "x @ newline # newline # y") auto
  have "split (c # d # s) [newline, newline] =
      (case split (d # s) [newline, newline] of [] \<Rightarrow> [[c]] | p # ps \<Rightarrow> (c # p) # ps)"
    using c by (intro split_blank_nomatch) simp
  also have "split (d # s) [newline, newline] = x # split y [newline, newline]"
    using Cons.IH [OF x] ds by simp
  finally show ?case using ds by simp
qed

lemma split_line_none:
  "newline \<notin> set x \<Longrightarrow> split x [newline] = [x]"
proof (induction x)
  case Nil
  show ?case by (simp add: split_line_Nil)
next
  case (Cons c x)
  then have "c \<noteq> newline" "split x [newline] = [x]" by auto
  then show ?case by (simp add: split_line_nomatch)
qed

lemma data_line_no_newline:
  "newline \<notin> set p \<Longrightarrow> newline \<notin> set (''data:'' @ p)"
  by (simp add: newline_def)

lemma split_sse_stream:
  assumes "\<forall>(p, f) \<in> set pfs. newline \<notin> set p"
  shows "split (sse_stream pfs @ t) [newline, newline] =
           map (\<lambda>(p, f). ''data:'' @ p) pfs @ split t [newline, newline]"
  using assms
proof (induction pfs)
  case Nil
  show ?case by (simp add: sse_stream_def)
next
  case (Cons pf pfs)
  obtain p f where pf: "pf = (p, f)" by (cases pf)
  with Cons.prems have "newline \<notin> set p" by simp
  then have p: "newline \<notin> set (''data:'' @ p)"
    by (rule data_line_no_newline)
  have "sse_stream (pf # pfs) @ t = (''data:'' @ p) @ newline # newline # (sse_stream pfs @ t)"
    by (simp add: sse_stream_def pf)
  then have "split (sse_stream (pf # pfs) @ t) [newline, newline] =
      (''data:'' @ p) # split (sse_stream pfs @ t) [newline, newline]"
    using split_blank_block [OF p] by simp
  with Cons pf show ?case by simp
qed

lemma fragments_data_lines:
  assumes "\<forall>(p, f) \<in> set pfs. carries parse p f"
  shows "fragments parse (map (\<lambda>(p, f). ''data:'' @ p) pfs @ ls) =
           map JStr (filter (\<lambda>f. f \<noteq> []) (map snd pfs)) @ fragments parse ls"
  using assms
proof (induction pfs)
  case Nil
  show ?case by simp
next
  case (Cons pf pfs)
  obtain p f where pf: "pf = (p, f)" by (cases pf)
  with Cons.prems have c: "carries parse p f" by simp
  then have ns: "\<not> is_sentinel (''data:'' @ p)"
    by (simp add: carries_def is_sentinel_def slice_def)
  from c have ld: "line_delta parse (''data:'' @ p) = (if f \<noteq> [] then Some (JStr f) else None)"
    by (auto simp: carries_def line_delta_def slice_def startsWith_def)
  from Cons ns ld pf show ?case
    by (simp add: fragments_Cons)
qed

lemma lines_of_sse_stream:
  assumes "\<forall>(p, f) \<in> set pfs. newline \<notin> set p"
  shows "lines_of (sse_stream pfs @ t) = map (\<lambda>(p, f). ''data:'' @ p) pfs @ lines_of t"
proof -
  have "concat (map (\<lambda>part. split part [newline]) (map (\<lambda>(p, f). ''data:'' @ p) pfs)) =
      map (\<lambda>(p, f). ''data:'' @ p) pfs"
    using assms
  proof (induction pfs)
    case Nil
    show ?case by simp
  next
    case (Cons pf pfs)
    obtain p f where pf: "pf = (p, f)" by (cases pf)
    with Cons.prems have "newline \<notin> set p" by simp
    then have "split (''data:'' @ p) [newline] = [''data:'' @ p]"
      by (intro split_line_none data_line_no_newline)
    with Cons pf show ?case by simp
  qed
  then show ?thesis
    by (simp add: lines_of_def split_sse_stream [OF assms] butlast_append split_nonempty)
qed

lemma lines_of_tail:
  assumes "tail = [] \<or> tail = ''data: [DONE]'' @ [newline, newline]"
  shows "fragments parse (lines_of tail) = []"
proof -
  have nn: "newline \<notin> set ''data: [DONE]''" by (simp add: newline_def)
  have "lines_of (''data: [DONE]'' @ [newline, newline]) = [''data: [DONE]'']"
    using split_blank_block [OF nn, of "[]"] split_line_none [OF nn]
    by (simp add: lines_of_def split_blank_Nil)
  moreover have "is_sentinel ''data: [DONE]''"
    by (simp add: is_sentinel_def startsWith_def slice_def trim_def is_space_def)
  moreover have "lines_of [] = []"
    by (simp add: lines_of_def split_blank_Nil)
  ultimately show ?thesis
    using assms by (auto simp: fragments_Cons)
qed

text \<open>A stream whose text is one block of one \<open>data:\<close> line for each fragment, with or
  without the sentinel block at the end, cut into chunks in any way.\<close>

lemma one_line_blocks_relayed:
  assumes "\<not> generating r" and "tasks r = []"
    and "\<forall>(p, f) \<in> set pfs. carries parse p f"
    and "concat cs = sse_stream pfs @ tail"
    and "tail = [] \<or> tail = ''data: [DONE]'' @ [newline, newline]"
  shows "effects (run parse r (session s uid utext now1 now2 uuid cs @ [end_of_data 0])) =
     effects r @
     [Broadcast (MessageAdded User uid utext now1), SetGenerating True,
      Broadcast (MessageAdded Assistant (''a_'' @ uuid) [] now2), Fetch utext] @
     map (\<lambda>f. Broadcast (AssistantDelta (''a_'' @ uuid) (JStr f)))
       (filter (\<lambda>f. f \<noteq> []) (map snd pfs)) @
     [Broadcast (AssistantDone (''a_'' @ uuid)), SetGenerating False]"
proof -
  from assms(3) have nl: "\<forall>(p, f) \<in> set pfs. newline \<notin> set p"
    by (auto simp: carries_def)
  have "fragments parse (lines_of (concat cs)) =
      map JStr (filter (\<lambda>f. f \<noteq> []) (map snd pfs))"
    using fragments_data_lines [OF assms(3), of "lines_of tail"] lines_of_tail [OF assms(5), of parse]
    by (simp add: assms(4) lines_of_sse_stream [OF nl])
  then show ?thesis
    using session_run(1) [OF assms(1,2), of parse s uid utext now1 now2 uuid cs]
    by (simp add: comp_def)
qed

lemma line_delta_content:
  "line_delta parse l =
     (case line_content parse l of None \<Rightarrow> None | Some d \<Rightarrow> if truthy d then Some d else None)"
  by (simp add: line_delta_def line_content_def split: option.splits)

lemma map_filter_line_delta:
  "List.map_filter (line_delta parse) ls = filter truthy (List.map_filter (line_content parse) ls)"
  by (induction ls) (simp_all add: List.map_filter_simps line_delta_content split: option.splits)

lemma truthy_text_fragments:
  "filter truthy (map JStr ts) = map JStr (filter (\<lambda>t. t \<noteq> []) ts)"
  by (induction ts) simp_all

text \<open>
  C7.  Take an idle room and any upstream stream, cut by the transport into the chunks
  \<open>cs\<close> in any way.  Its fragments \<open>fs\<close> are the contents carried, in order, by the lines of
  its complete blocks, up to the sentinel line if there is one; a block may have several
  lines, and a line may carry nothing.  The generation broadcasts, after the two
  \<open>message_added\<close> events, exactly one \<open>assistant_delta\<close> for each fragment that is not empty
  (for a text fragment: that is not the empty string), in the order of the stream, then
  exactly one \<open>assistant_done\<close>, clears the flag and leaves no call suspended.
\<close>

theorem fragments_relayed_in_order:
  assumes "\<not> generating r" and "tasks r = []"
    and "List.map_filter (line_content parse)
           (takeWhile (\<lambda>l. \<not> is_sentinel l) (lines_of (concat cs))) = fs"
  shows "effects (run parse r (session s uid utext now1 now2 uuid cs @ [end_of_data 0])) =
       effects r @
       [Broadcast (MessageAdded User uid utext now1), SetGenerating True,
        Broadcast (MessageAdded Assistant (''a_'' @ uuid) [] now2), Fetch utext] @
       map (\<lambda>f. Broadcast (AssistantDelta (''a_'' @ uuid) f)) (filter truthy fs) @
       [Broadcast (AssistantDone (''a_'' @ uuid)), SetGenerating False] \<and>
     tasks (run parse r (session s uid utext now1 now2 uuid cs @ [end_of_data 0])) = [] \<and>
     \<not> generating (run parse r (session s uid utext now1 now2 uuid cs @ [end_of_data 0])) \<and>
     (\<forall>ts. fs = map JStr ts \<longrightarrow> filter truthy fs = map JStr (filter (\<lambda>t. t \<noteq> []) ts))"
proof -
  have "fragments parse (lines_of (concat cs)) = filter truthy fs"
    unfolding fragments_def map_filter_line_delta assms(3) ..
  then show ?thesis
    using session_run(1,2,3) [OF assms(1,2), of parse s uid utext now1 now2 uuid cs]
    by (simp add: comp_def truthy_text_fragments)
qed

lemma completion_fragments:
  "List.map_filter (line_content completion_parse)
     (takeWhile (\<lambda>l. \<not> is_sentinel l) (lines_of (concat completion_chunks))) =
   map JStr ['''', ''Pre'', ''heat '', ''oven.'']"
  by code_simp

lemma completion_lines:
  \<open>lines_of (concat completion_chunks) =
     [''data: {"choices":[{"delta":{"role":"assistant","content":""}}]}'',
      ''data: {"choices":[{"delta":{"content":"Pre"}}]}'',
      ''data: {"choices":[{"delta":{"content":"heat "}}]}'',
      ''data: {"choices":[{"delta":{"content":"oven."}}]}'',
      '': keep-alive'',
      ''data: {"choices":[{"delta":{},"finish_reason":"stop"}]}'',
      ''data: [DONE]'']\<close>
  by code_simp

text \<open>A completion stream with an empty first content, the fragments \<open>Pre\<close>, \<open>heat \<close>,
  \<open>oven.\<close> (two of them in one block), a comment, a chunk with no content and the
  sentinel: three deltas in that order, then \<open>assistant_done\<close>.\<close>

theorem fragments_relayed_in_order_witness:
  \<open>lines_of (concat completion_chunks) =
     [''data: {"choices":[{"delta":{"role":"assistant","content":""}}]}'',
      ''data: {"choices":[{"delta":{"content":"Pre"}}]}'',
      ''data: {"choices":[{"delta":{"content":"heat "}}]}'',
      ''data: {"choices":[{"delta":{"content":"oven."}}]}'',
      '': keep-alive'',
      ''data: {"choices":[{"delta":{},"finish_reason":"stop"}]}'',
      ''data: [DONE]''] \<and>
   effects (run completion_parse demo_room
      (session 1 ''u1'' ''hi'' 5 6 ''X'' completion_chunks @ [end_of_data 0])) =
     [Broadcast (MessageAdded User ''u1'' ''hi'' 5), SetGenerating True,
      Broadcast (MessageAdded Assistant ''a_X'' [] 6), Fetch ''hi'',
      Broadcast (AssistantDelta ''a_X'' (JStr ''Pre'')),
      Broadcast (AssistantDelta ''a_X'' (JStr ''heat '')),
      Broadcast (AssistantDelta ''a_X'' (JStr ''oven.'')),
      Broadcast (AssistantDone ''a_X''), SetGenerating False] \<and>
   tasks (run completion_parse demo_room
      (session 1 ''u1'' ''hi'' 5 6 ''X'' completion_chunks @ [end_of_data 0])) = []\<close>
proof -
  have g: "\<not> generating demo_room" and t: "tasks demo_room = []"
    by (simp_all add: demo_room_def)
  note f = fragments_relayed_in_order [OF g t completion_fragments, of 1 "''u1''" "''hi''" 5 6 "''X''"]
  from f have nonempty: "filter truthy (map JStr ['''', ''Pre'', ''heat '', ''oven.'']) =
      map JStr (filter (\<lambda>t. t \<noteq> []) ['''', ''Pre'', ''heat '', ''oven.''])"
    by blast
  from f have "effects (run completion_parse demo_room
      (session 1 ''u1'' ''hi'' 5 6 ''X'' completion_chunks @ [end_of_data 0])) =
       effects demo_room @
       [Broadcast (MessageAdded User ''u1'' ''hi'' 5), SetGenerating True,
        Broadcast (MessageAdded Assistant (''a_'' @ ''X'') [] 6), Fetch ''hi''] @
       map (\<lambda>f. Broadcast (AssistantDelta (''a_'' @ ''X'') f))
         (filter truthy (map JStr ['''', ''Pre'', ''heat '', ''oven.''])) @
       [Broadcast (AssistantDone (''a_'' @ ''X'')), SetGenerating False]"
    and "tasks (run completion_parse demo_room
      (session 1 ''u1'' ''hi'' 5 6 ''X'' completion_chunks @ [end_of_data 0])) = []"
    by blast+
  then show ?thesis
    unfolding nonempty using completion_lines
    by (simp add: demo_room_def)
qed

section \<open>The sentinel\<close>

lemma takeWhile_first_sentinel:
  assumes "is_sentinel l" "\<forall>x \<in> set ls1. \<not> is_sentinel x"
  shows "fragments parse (ls1 @ l # ls2) = List.map_filter (line_delta parse) ls1"
  using assms by (simp add: fragments_def takeWhile_tail)

text \<open>
  C6.  Take an idle room and a stream whose complete blocks, read so far in the chunks
  \<open>cs\<close>, have the lines \<open>ls1\<close>, then a line \<open>l\<close> whose payload is the sentinel, then the lines
  \<open>ls2\<close>.  As soon as those chunks are read the generation is over: the deltas broadcast
  are those of the lines \<open>ls1\<close> before the sentinel and of no other line, \<open>assistant_done\<close>
  follows them directly, the flag is cleared and no call is left suspended, so the
  buffer with its partial block is gone.  Whatever chunks \<open>rest\<close> the transport delivers
  afterwards, and the end of the data, change nothing.
\<close>

theorem sentinel_stops_reader:
  assumes "\<not> generating r" and "tasks r = []"
    and "lines_of (concat cs) = ls1 @ l # ls2"
    and "is_sentinel l" and "\<forall>x \<in> set ls1. \<not> is_sentinel x"
  shows "effects (run parse r (session s uid utext now1 now2 uuid cs)) =
       effects r @
       [Broadcast (MessageAdded User uid utext now1), SetGenerating True,
        Broadcast (MessageAdded Assistant (''a_'' @ uuid) [] now2), Fetch utext] @
       map (\<lambda>d. Broadcast (AssistantDelta (''a_'' @ uuid) d)) (List.map_filter (line_delta parse) ls1) @
       [Broadcast (AssistantDone (''a_'' @ uuid)), SetGenerating False] \<and>
     tasks (run parse r (session s uid utext now1 now2 uuid cs)) = [] \<and>
     \<not> generating (run parse r (session s uid utext now1 now2 uuid cs)) \<and>
     run parse r (session s uid utext now1 now2 uuid (cs @ rest) @ [end_of_data 0]) =
       run parse r (session s uid utext now1 now2 uuid cs)"
proof -
  have ex: "\<exists>x \<in> set (lines_of (concat cs)). is_sentinel x"
    using assms(3,4) by auto
  note sr = session_run [OF assms(1,2), where parse = parse and s = s and uid = uid
      and utext = utext and ?now1.0 = now1 and ?now2.0 = now2 and uuid = uuid and cs = cs]
  have same: "run parse r (session s uid utext now1 now2 uuid cs) =
      run parse r (session s uid utext now1 now2 uuid cs @ [end_of_data 0])"
    using sr(4) [OF ex] .
  have frag: "fragments parse (lines_of (concat cs)) = List.map_filter (line_delta parse) ls1"
    by (simp only: assms(3) takeWhile_first_sentinel [OF assms(4,5)])
  have idle: "tasks (run parse r (session s uid utext now1 now2 uuid cs)) = []"
    by (subst same) (rule sr(2))
  have later: "run parse r (session s uid utext now1 now2 uuid (cs @ rest) @ [end_of_data 0]) =
      run parse (run parse (run parse r (session s uid utext now1 now2 uuid cs)) (reads 0 rest))
        [end_of_data 0]"
    by (simp add: session_def reads_def del: room_step.simps)
  have "run parse r (session s uid utext now1 now2 uuid (cs @ rest) @ [end_of_data 0]) =
      run parse r (session s uid utext now1 now2 uuid cs)"
    unfolding later run_reads_idle [OF idle]
    using idle by (simp add: end_of_data_def)
  then show ?thesis
    using sr(1,2,3) frag unfolding same [symmetric]
    by (simp add: comp_def)
qed

lemma early_done_lines:
  \<open>lines_of (concat early_done_chunks) =
     [''data: {"choices":[{"delta":{"content":"Pre"}}]}''] @ ''data: [DONE]'' #
     [''data: {"choices":[{"delta":{"content":"heat "}}]}'']\<close>
  by code_simp

lemma early_done_sentinel:
  \<open>is_sentinel ''data: [DONE]'' \<and>
   (\<forall>x \<in> set [''data: {"choices":[{"delta":{"content":"Pre"}}]}'']. \<not> is_sentinel x) \<and>
   List.map_filter (line_delta demo_parse) [''data: {"choices":[{"delta":{"content":"Pre"}}]}''] =
     [JStr ''Pre'']\<close>
  by code_simp

text \<open>A fragment, the sentinel, then a complete block and a partial one, completed later.\<close>

theorem sentinel_stops_reader_witness:
  "effects (run demo_parse demo_room (session 1 ''u1'' ''hi'' 5 6 ''X'' early_done_chunks)) =
     [Broadcast (MessageAdded User ''u1'' ''hi'' 5), SetGenerating True,
      Broadcast (MessageAdded Assistant ''a_X'' [] 6), Fetch ''hi'',
      Broadcast (AssistantDelta ''a_X'' (JStr ''Pre'')),
      Broadcast (AssistantDone ''a_X''), SetGenerating False] \<and>
   run demo_parse demo_room
     (session 1 ''u1'' ''hi'' 5 6 ''X'' (early_done_chunks @ late_chunks) @ [end_of_data 0]) =
   run demo_parse demo_room (session 1 ''u1'' ''hi'' 5 6 ''X'' early_done_chunks)"
proof -
  have g: "\<not> generating demo_room" and t: "tasks demo_room = []"
    by (simp_all add: demo_room_def)
  from early_done_sentinel have s: "is_sentinel ''data: [DONE]''"
    and n: \<open>\<forall>x \<in> set [''data: {"choices":[{"delta":{"content":"Pre"}}]}'']. \<not> is_sentinel x\<close>
    and f: \<open>List.map_filter (line_delta demo_parse) [''data: {"choices":[{"delta":{"content":"Pre"}}]}''] =
     [JStr ''Pre'']\<close>
    by blast+
  from sentinel_stops_reader [OF g t early_done_lines s n, of demo_parse 1 "''u1''" "''hi''" 5 6 "''X''"
      late_chunks] f
  show ?thesis
    by (simp add: demo_room_def)
qed

section \<open>Lines that are skipped\<close>

lemma skipped_line:
  assumes "unprefixed l \<or> malformed parse l"
  shows "\<not> is_sentinel l" and "line_delta parse l = None"
  using assms by (auto simp: unprefixed_def malformed_def is_sentinel_def line_delta_def)

lemma fragments_skip:
  assumes "unprefixed l \<or> malformed parse l"
  shows "fragments parse (ls1 @ l # ls2) = fragments parse (ls1 @ ls2)"
  by (induction ls1) (simp_all add: fragments_Cons skipped_line [OF assms] split: option.splits)

lemma sentinel_skip:
  assumes "unprefixed l \<or> malformed parse l"
  shows "(\<exists>x \<in> set (ls1 @ l # ls2). is_sentinel x) \<longleftrightarrow> (\<exists>x \<in> set (ls1 @ ls2). is_sentinel x)"
  using skipped_line(1) [OF assms] by auto

text \<open>
  C8.  A line that does not start with \<open>data:\<close>, and a \<open>data:\<close> line whose payload is not
  the sentinel and does not parse, are skipped: the loop over the lines does with the
  line what it does without it, so the lines after it still yield their broadcasts.
  A generation in an idle room whose stream has such a line \<open>l\<close> among the lines of its
  complete blocks broadcasts the deltas of the other lines and ends with
  \<open>assistant_done\<close>, not with an error.
\<close>

theorem bad_lines_skipped:
  assumes "\<not> generating r" and "tasks r = []"
    and "lines_of (concat cs) = ls1 @ l # ls2"
    and "unprefixed l \<or> malformed parse l"
  shows "lines_loop parse aid (ls1 @ l # ls2) r' = lines_loop parse aid (ls1 @ ls2) r' \<and>
     effects (run parse r (session s uid utext now1 now2 uuid cs @ [end_of_data 0])) =
       effects r @
       [Broadcast (MessageAdded User uid utext now1), SetGenerating True,
        Broadcast (MessageAdded Assistant (''a_'' @ uuid) [] now2), Fetch utext] @
       map (\<lambda>d. Broadcast (AssistantDelta (''a_'' @ uuid) d)) (fragments parse (ls1 @ ls2)) @
       [Broadcast (AssistantDone (''a_'' @ uuid)), SetGenerating False]"
proof -
  have "lines_loop parse aid (ls1 @ l # ls2) r' = lines_loop parse aid (ls1 @ ls2) r'"
    by (simp only: lines_loop_eq fragments_skip [OF assms(4)] sentinel_skip [OF assms(4)])
  moreover have "fragments parse (lines_of (concat cs)) = fragments parse (ls1 @ ls2)"
    by (simp only: assms(3) fragments_skip [OF assms(4)])
  ultimately show ?thesis
    using session_run(1) [OF assms(1,2), of parse s uid utext now1 now2 uuid cs]
    by (simp add: comp_def)
qed

lemma noisy_lines:
  \<open>lines_of (concat noisy_chunks) =
     [''event: message''] @ ''data: {"choices":[{"del'' #
     [''data: {"choices":[{"delta":{"content":"Pre"}}]}'']\<close>
  by code_simp

lemma noisy_malformed:
  \<open>malformed demo_parse ''data: {"choices":[{"del''\<close>
  by code_simp

lemma noisy_unprefixed: "unprefixed ''event: message''"
  by code_simp

lemma noisy_fragments:
  \<open>fragments demo_parse ([''event: message''] @
      [''data: {"choices":[{"delta":{"content":"Pre"}}]}'']) = [JStr ''Pre'']\<close>
  \<open>fragments demo_parse ([] @ [''data: {"choices":[{"del'',
      ''data: {"choices":[{"delta":{"content":"Pre"}}]}'']) = [JStr ''Pre'']\<close>
  by code_simp+

lemma noisy_lines':
  \<open>lines_of (concat noisy_chunks) =
     [] @ ''event: message'' #
     [''data: {"choices":[{"del'', ''data: {"choices":[{"delta":{"content":"Pre"}}]}'']\<close>
  by code_simp

text \<open>A line of another field and a garbled payload, before a fragment.\<close>

theorem bad_lines_skipped_witness:
  \<open>effects (run demo_parse demo_room (session 1 ''u1'' ''hi'' 5 6 ''X'' noisy_chunks @ [end_of_data 0])) =
     [Broadcast (MessageAdded User ''u1'' ''hi'' 5), SetGenerating True,
      Broadcast (MessageAdded Assistant ''a_X'' [] 6), Fetch ''hi'',
      Broadcast (AssistantDelta ''a_X'' (JStr ''Pre'')),
      Broadcast (AssistantDone ''a_X''), SetGenerating False] \<and>
   lines_loop demo_parse ''a_X''
     [''event: message'', ''data: {"choices":[{"del'',
      ''data: {"choices":[{"delta":{"content":"Pre"}}]}''] demo_room =
   lines_loop demo_parse ''a_X''
     [''event: message'', ''data: {"choices":[{"delta":{"content":"Pre"}}]}''] demo_room \<and>
   lines_loop demo_parse ''a_X''
     [''event: message'', ''data: {"choices":[{"del'',
      ''data: {"choices":[{"delta":{"content":"Pre"}}]}''] demo_room =
   lines_loop demo_parse ''a_X''
     [''data: {"choices":[{"del'', ''data: {"choices":[{"delta":{"content":"Pre"}}]}''] demo_room\<close>
proof -
  have g: "\<not> generating demo_room" and t: "tasks demo_room = []"
    by (simp_all add: demo_room_def)
  have m: \<open>unprefixed ''data: {"choices":[{"del'' \<or> malformed demo_parse ''data: {"choices":[{"del''\<close>
    using noisy_malformed by simp
  have u: \<open>unprefixed ''event: message'' \<or> malformed demo_parse ''event: message''\<close>
    using noisy_unprefixed by simp
  note a = bad_lines_skipped [OF g t noisy_lines m, of "''a_X''" demo_room 1 "''u1''" "''hi''" 5 6 "''X''"]
  note b = bad_lines_skipped [OF g t noisy_lines' u, of "''a_X''" demo_room 1 "''u1''" "''hi''" 5 6 "''X''"]
  from a have \<open>lines_loop demo_parse ''a_X''
     [''event: message'', ''data: {"choices":[{"del'',
      ''data: {"choices":[{"delta":{"content":"Pre"}}]}''] demo_room =
     lines_loop demo_parse ''a_X''
     [''event: message'', ''data: {"choices":[{"delta":{"content":"Pre"}}]}''] demo_room\<close>
    by (simp del: lines_loop.simps)
  moreover from b have \<open>lines_loop demo_parse ''a_X''
     [''event: message'', ''data: {"choices":[{"del'',
      ''data: {"choices":[{"delta":{"content":"Pre"}}]}''] demo_room =
     lines_loop demo_parse ''a_X''
     [''data: {"choices":[{"del'', ''data: {"choices":[{"delta":{"content":"Pre"}}]}''] demo_room\<close>
    by (simp del: lines_loop.simps)
  moreover from a noisy_fragments(1) have \<open>effects (run demo_parse demo_room (session 1 ''u1'' ''hi'' 5 6 ''X'' noisy_chunks @ [end_of_data 0])) =
     [Broadcast (MessageAdded User ''u1'' ''hi'' 5), SetGenerating True,
      Broadcast (MessageAdded Assistant ''a_X'' [] 6), Fetch ''hi'',
      Broadcast (AssistantDelta ''a_X'' (JStr ''Pre'')),
      Broadcast (AssistantDone ''a_X''), SetGenerating False]\<close>
    by (simp add: demo_room_def del: lines_loop.simps)
  ultimately show ?thesis by blast
qed

end
